theory Spec2Isabelle
  imports Main "HOL-Library.Word"
begin

section \<open>The schema descriptions decoded from the TiDB status API\<close>

text \<open>
  The file \<^verbatim>\<open>pkg/keyvisual/decorator/tidb_requests.go\<close> keeps the map from table and
  partition ids to their names up to date. This theory embeds its four functions
  (\<^verbatim>\<open>updateMap\<close>, \<^verbatim>\<open>updateTableMap\<close>, \<^verbatim>\<open>updateTableMapByDBTableInfos\<close>, \<^verbatim>\<open>request\<close>).

  The types of package \<^verbatim>\<open>model\<close> are declared outside that file. Each record below has
  exactly the fields the file reads; \<^verbatim>\<open>x.Name.O\<close> is the field \<open>..._Name_O\<close>.
  The decoded slices and maps hold pointers; the records stand for the values they
  point to, so a decoded \<^verbatim>\<open>null\<close> element is not an input of this model.
  Go's \<^verbatim>\<open>int64\<close> is a 64-bit word.
\<close>

type_synonym int64 = "64 word"

record IndexInfo =
  idx_ID :: int64
  idx_Name_O :: string

record PartitionDefinition =
  def_ID :: int64
  def_Name_O :: string

record PartitionInfo =
  Definitions :: "PartitionDefinition list"

text \<open>
  The method \<^verbatim>\<open>GetPartitionInfo\<close> of \<^verbatim>\<open>model.TableInfo\<close> is declared outside the file.
  The field \<open>GetPartitionInfo\<close> is the pointer the call returns: \<open>None\<close> is \<^verbatim>\<open>nil\<close>.
\<close>

record TableInfo =
  tbl_ID :: int64
  tbl_Name_O :: string
  tbl_Indices :: "IndexInfo list"
  GetPartitionInfo :: "PartitionInfo option"

text \<open>
  Modelled from the spec: the type \<^verbatim>\<open>model.SchemaState\<close> and its constant
  \<^verbatim>\<open>model.StateNone\<close> are declared outside the file. \<open>StateNone\<close> is the absent/dropped
  lifecycle state of a database; every other state is \<open>StateOther k\<close>.
\<close>

datatype SchemaState = StateNone | StateOther nat

record DBInfo =
  db_Name_O :: string
  db_State :: SchemaState

text \<open>
  A combined description of the \<^verbatim>\<open>/db-table\<close> endpoint: \<^verbatim>\<open>dbTable.DBInfo.Name.O\<close> and
  \<^verbatim>\<open>dbTable.TableInfo\<close>.
\<close>

record DBTableInfo =
  dt_DBInfo_Name_O :: string
  dt_TableInfo :: TableInfo

section \<open>The label strategy and what it does to the outside\<close>

text \<open>The value of the lookup: \<^verbatim>\<open>tableDetail\<close>.\<close>

record tableDetail =
  Name :: string
  DB :: string
  ID :: int64
  Indices :: "int64 \<rightharpoonup> string"

text \<open>
  The three paths \<^verbatim>\<open>updateMap\<close> passes to \<^verbatim>\<open>request\<close>:
  \<^item> \<open>DBTablePath batch\<close> is \<^verbatim>\<open>"/db-table?table_ids=" + strings.Join(batch, ",")\<close>, the
    batch holding \<^verbatim>\<open>strconv.FormatInt(id, 10)\<close> for each of its ids;
  \<^item> \<open>SchemaPath\<close> is \<^verbatim>\<open>"/schema"\<close>;
  \<^item> \<open>SchemaDBPath name\<close> is \<^verbatim>\<open>"/schema/" + url.PathEscape(name)\<close>.
\<close>

datatype request =
    DBTablePath "int64 list"
  | SchemaPath
  | SchemaDBPath string

text \<open>
  What one call of \<^verbatim>\<open>request\<close> came back with: \<open>Err msg\<close> is a non-nil error whose
  \<^verbatim>\<open>Error()\<close> text is \<open>msg\<close> (from \<^verbatim>\<open>SendGetRequest\<close>, or the wrapped error of
  \<^verbatim>\<open>json.Unmarshal\<close>); the other three are the value decoded into \<^verbatim>\<open>v\<close>. The map
  \<^verbatim>\<open>map[int]*model.DBTableInfo\<close> is the list of its key-value pairs in the order the
  \<^verbatim>\<open>range\<close> loop visits them.
\<close>

datatype response =
    Err string
  | GotDBTableInfos "(int \<times> DBTableInfo) list"
  | GotDBInfos "DBInfo list"
  | GotTableInfos "TableInfo list"

type_synonym io_log = "(request \<times> response) list"

text \<open>
  The receiver \<^verbatim>\<open>s *tidbLabelStrategy\<close>. \<open>SchemaVersion\<close>, \<open>dbTableInfosEndpointNotFound\<close>
  and \<open>TableMap\<close> (a \<^verbatim>\<open>sync.Map\<close>) are its fields. Two more fields record the effects of
  the code, oldest first, and are read by no branch of it: \<open>sent\<close> holds every call of
  \<^verbatim>\<open>s.request\<close> with its outcome, \<open>stored\<close> every call of \<^verbatim>\<open>s.TableMap.Store\<close>.
\<close>

record tidbLabelStrategy =
  SchemaVersion :: int64
  dbTableInfosEndpointNotFound :: bool
  TableMap :: "int64 \<rightharpoonup> tableDetail"
  sent :: io_log
  stored :: "(int64 \<times> tableDetail) list"

text \<open>
  The TiDB status server behind \<^verbatim>\<open>s.tidbClient\<close>, as \<^verbatim>\<open>request\<close> (lines 194 to 203) sees
  it: one function for each type \<^verbatim>\<open>request\<close> decodes into. \<open>Inl msg\<close> is the error
  \<^verbatim>\<open>request\<close> returns, with \<open>msg\<close> its \<^verbatim>\<open>Error()\<close> text, whether it is the error of
  \<^verbatim>\<open>SendGetRequest\<close> or the error of \<^verbatim>\<open>json.Unmarshal\<close> wrapped as \<^verbatim>\<open>ErrInvalidData\<close>;
  \<open>Inr x\<close> is a nil error with \<open>x\<close> decoded into \<^verbatim>\<open>v\<close>. The answer may depend on
  everything asked before (the first argument), so the server may change between two
  calls and between two cycles.
\<close>

record client =
  db_table :: "io_log \<Rightarrow> int64 list \<Rightarrow> string + (int \<times> DBTableInfo) list"
  schema :: "io_log \<Rightarrow> string + DBInfo list"
  schema_db :: "io_log \<Rightarrow> string \<Rightarrow> string + TableInfo list"

definition tableInfosBatchSize :: nat where
  "tableInfosBatchSize = 512"

definition Store :: "int64 \<Rightarrow> tableDetail \<Rightarrow> tidbLabelStrategy \<Rightarrow> tidbLabelStrategy" where
  "Store k v s = s\<lparr>TableMap := (TableMap s)(k \<mapsto> v), stored := stored s @ [(k, v)]\<rparr>"

definition logged :: "request \<Rightarrow> response \<Rightarrow> tidbLabelStrategy \<Rightarrow> tidbLabelStrategy" where
  "logged p r s = s\<lparr>sent := sent s @ [(p, r)]\<rparr>"

section \<open>The label builder\<close>

text \<open>
  The loop \<^verbatim>\<open>for _, index := range table.Indices { indices[index.ID] = index.Name.O }\<close>
  on a fresh map.
\<close>

definition build_indices :: "IndexInfo list \<Rightarrow> (int64 \<rightharpoonup> string)" where
  "build_indices ixs = foldl (\<lambda>m index. m(idx_ID index \<mapsto> idx_Name_O index)) Map.empty ixs"

text \<open>The body of the loop of \<^verbatim>\<open>updateTableMap\<close>, lines 139 to 160.\<close>

definition updateTableMap_table :: "string \<Rightarrow> TableInfo \<Rightarrow> tidbLabelStrategy \<Rightarrow> tidbLabelStrategy" where
  "updateTableMap_table dbname table s =
     (let indices = build_indices (tbl_Indices table);
          detail = \<lparr>Name = tbl_Name_O table, DB = dbname, ID = tbl_ID table, Indices = indices\<rparr>;
          s1 = Store (tbl_ID table) detail s
      in case GetPartitionInfo table of
           None \<Rightarrow> s1
         | Some partitionInfo \<Rightarrow>
             foldl (\<lambda>s' partitionDef.
                      Store (def_ID partitionDef)
                        \<lparr>Name = tbl_Name_O table @ ''/'' @ def_Name_O partitionDef,
                         DB = dbname, ID = def_ID partitionDef, Indices = indices\<rparr> s')
                   s1 (Definitions partitionInfo))"

definition updateTableMap :: "string \<Rightarrow> TableInfo list \<Rightarrow> tidbLabelStrategy \<Rightarrow> tidbLabelStrategy" where
  "updateTableMap dbname tableInfos s =
     (if length tableInfos = 0 then s
      else foldl (\<lambda>s' table. updateTableMap_table dbname table s') s tableInfos)"

text \<open>The body of the loop of \<^verbatim>\<open>updateTableMapByDBTableInfos\<close>, lines 169 to 190.\<close>

definition updateTableMapByDBTableInfos_entry :: "DBTableInfo \<Rightarrow> tidbLabelStrategy \<Rightarrow> tidbLabelStrategy" where
  "updateTableMapByDBTableInfos_entry dbTable s =
     (let indices = build_indices (tbl_Indices (dt_TableInfo dbTable));
          detail = \<lparr>Name = tbl_Name_O (dt_TableInfo dbTable), DB = dt_DBInfo_Name_O dbTable,
                    ID = tbl_ID (dt_TableInfo dbTable), Indices = indices\<rparr>;
          s1 = Store (tbl_ID (dt_TableInfo dbTable)) detail s
      in case GetPartitionInfo (dt_TableInfo dbTable) of
           None \<Rightarrow> s1
         | Some partitionInfo \<Rightarrow>
             foldl (\<lambda>s' partitionDef.
                      Store (def_ID partitionDef)
                        \<lparr>Name = tbl_Name_O (dt_TableInfo dbTable) @ ''/'' @ def_Name_O partitionDef,
                         DB = dt_DBInfo_Name_O dbTable, ID = def_ID partitionDef,
                         Indices = indices\<rparr> s')
                   s1 (Definitions partitionInfo))"

definition updateTableMapByDBTableInfos ::
  "(int \<times> DBTableInfo) list \<Rightarrow> tidbLabelStrategy \<Rightarrow> tidbLabelStrategy" where
  "updateTableMapByDBTableInfos dbTableInfos s =
     (if length dbTableInfos = 0 then s
      else foldl (\<lambda>s' (_, dbTable). updateTableMapByDBTableInfos_entry dbTable s') s dbTableInfos)"

section \<open>The version check\<close>

text \<open>
  \<^verbatim>\<open>strconv.ParseInt(s, 10, 64)\<close>: an optional sign, then one or more decimal digits and
  nothing else; \<open>None\<close> is a non-nil error (syntax or range).
\<close>

definition digit_of :: "char \<Rightarrow> nat option" where
  "digit_of c = (if c \<in> set ''0123456789'' then Some (of_char c - 48) else None)"

fun parse_digits :: "nat \<Rightarrow> string \<Rightarrow> nat option" where
  "parse_digits acc [] = Some acc"
| "parse_digits acc (c # cs) =
     (case digit_of c of None \<Rightarrow> None | Some d \<Rightarrow> parse_digits (acc * 10 + d) cs)"

definition ParseUint :: "string \<Rightarrow> nat option" where
  "ParseUint str = (if str = [] then None else parse_digits 0 str)"

definition ParseInt :: "string \<Rightarrow> int64 option" where
  "ParseInt str =
     (if str = [] then None
      else let neg = (hd str = CHR ''-'');
               rest = (if hd str = CHR ''+'' \<or> hd str = CHR ''-'' then tl str else str)
           in case ParseUint rest of
                None \<Rightarrow> None
              | Some un \<Rightarrow>
                  if \<not> neg \<and> un \<ge> 2 ^ 63 then None
                  else if neg \<and> un > 2 ^ 63 then None
                  else Some (if neg then - of_nat un else of_nat un))"

section \<open>The batched fetch\<close>

text \<open>
  \<^verbatim>\<open>strings.Contains(str, substr)\<close>.
\<close>

fun Contains :: "string \<Rightarrow> string \<Rightarrow> bool" where
  "Contains [] substr = (substr = [])"
| "Contains (c # cs) substr = (take (length substr) (c # cs) = substr \<or> Contains cs substr)"

text \<open>
  The loop of lines 72 to 80 over the keys of \<^verbatim>\<open>tableIDs\<close>, in the order the \<^verbatim>\<open>range\<close>
  visits them, with its three variables \<^verbatim>\<open>tableIDBatches\<close>, \<^verbatim>\<open>batch\<close> and \<^verbatim>\<open>n\<close>.
\<close>

fun batch_loop :: "int64 list \<Rightarrow> int64 list list \<Rightarrow> int64 list \<Rightarrow> nat \<Rightarrow> int64 list list \<times> int64 list" where
  "batch_loop [] tableIDBatches batch n = (tableIDBatches, batch)"
| "batch_loop (tid # ids) tableIDBatches batch n =
     (if n + 1 = tableInfosBatchSize
      then batch_loop ids (tableIDBatches @ [batch @ [tid]]) [] 0
      else batch_loop ids tableIDBatches (batch @ [tid]) (n + 1))"

text \<open>Lines 69 to 83: the batches the requests are made for.\<close>

definition make_batches :: "int64 list \<Rightarrow> int64 list list" where
  "make_batches tableIDs =
     (case batch_loop tableIDs [] [] 0 of
        (tableIDBatches, batch) \<Rightarrow>
          if length batch > 0 then tableIDBatches @ [batch] else tableIDBatches)"

text \<open>
  The loop of lines 85 to 97. The result is \<^verbatim>\<open>updateSuccess\<close> and the strategy after the
  loop; the first failing request ends it.
\<close>

fun request_batches :: "client \<Rightarrow> int64 list list \<Rightarrow> tidbLabelStrategy \<Rightarrow> bool \<times> tidbLabelStrategy" where
  "request_batches c [] s = (True, s)"
| "request_batches c (batch # rest) s =
     (case db_table c (sent s) batch of
        Inl err \<Rightarrow>
          (False,
           if Contains err ''404''
           then (logged (DBTablePath batch) (Err err) s)\<lparr>dbTableInfosEndpointNotFound := True\<rparr>
           else logged (DBTablePath batch) (Err err) s)
      | Inr dbTableInfos \<Rightarrow>
          request_batches c rest
            (updateTableMapByDBTableInfos dbTableInfos
               (logged (DBTablePath batch) (GotDBTableInfos dbTableInfos) s)))"

section \<open>The full scan\<close>

text \<open>
  The loop of lines 114 to 126, with \<^verbatim>\<open>updateSuccess\<close> as an argument and as the first
  component of the result.
\<close>

fun scan_dbs :: "client \<Rightarrow> DBInfo list \<Rightarrow> bool \<Rightarrow> tidbLabelStrategy \<Rightarrow> bool \<times> tidbLabelStrategy" where
  "scan_dbs c [] updateSuccess s = (updateSuccess, s)"
| "scan_dbs c (db # rest) updateSuccess s =
     (if db_State db = StateNone then scan_dbs c rest updateSuccess s
      else case schema_db c (sent s) (db_Name_O db) of
             Inl err \<Rightarrow>
               scan_dbs c rest False (logged (SchemaDBPath (db_Name_O db)) (Err err) s)
           | Inr tableInfos \<Rightarrow>
               scan_dbs c rest updateSuccess
                 (updateTableMap (db_Name_O db) tableInfos
                    (logged (SchemaDBPath (db_Name_O db)) (GotTableInfos tableInfos) s)))"

text \<open>Lines 105 to 131: the part of \<^verbatim>\<open>updateMap\<close> after the batched fetch.\<close>

definition full_scan :: "client \<Rightarrow> int64 \<Rightarrow> tidbLabelStrategy \<Rightarrow> tidbLabelStrategy" where
  "full_scan c schemaVersion s =
     (case schema c (sent s) of
        Inl err \<Rightarrow> logged SchemaPath (Err err) s
      | Inr dbInfos \<Rightarrow>
          (case scan_dbs c dbInfos True (logged SchemaPath (GotDBInfos dbInfos) s) of
             (updateSuccess, s') \<Rightarrow>
               if updateSuccess then s'\<lparr>SchemaVersion := schemaVersion\<rparr> else s'))"

section \<open>The refresh cycle\<close>

text \<open>
  \<^verbatim>\<open>updateMap\<close>. Its inputs from outside are the server \<open>c\<close>, the outcome \<open>etcd\<close> of
  \<^verbatim>\<open>s.EtcdClient.Get\<close> (\<open>Inl\<close> an error, \<open>Inr\<close> the values of \<^verbatim>\<open>resp.Kvs\<close>) and
  \<open>getTableIDs\<close>: \<open>None\<close> when the field \<^verbatim>\<open>s.getTableIDs\<close> is \<^verbatim>\<open>nil\<close>, otherwise the keys
  of the set the call returns, in the order the \<^verbatim>\<open>range\<close> loop visits them (any order
  is possible, and no key comes twice). The calls of the logger are not modelled; they
  are the only use of the test \<^verbatim>\<open>s.SchemaVersion != -1\<close>. A timeout of the etcd request
  (\<^verbatim>\<open>etcdGetTimeout\<close>) is an error of the \<^verbatim>\<open>Get\<close>.
\<close>

definition updateMap ::
  "client \<Rightarrow> string + string list \<Rightarrow> int64 list option \<Rightarrow> tidbLabelStrategy \<Rightarrow> tidbLabelStrategy" where
  "updateMap c etcd getTableIDs s =
     (case etcd of
        Inl err \<Rightarrow> s
      | Inr kvs \<Rightarrow>
          if length kvs \<noteq> 1 then s
          else (case ParseInt (kvs ! 0) of
                  None \<Rightarrow> s
                | Some schemaVersion \<Rightarrow>
                    if schemaVersion = SchemaVersion s then s
                    else if getTableIDs \<noteq> None \<and> \<not> dbTableInfosEndpointNotFound s
                    then (let tableIDs = the getTableIDs
                          in if length tableIDs = 0 then s
                             else (case request_batches c (make_batches tableIDs) s of
                                     (updateSuccess, s') \<Rightarrow>
                                       if updateSuccess then s'\<lparr>SchemaVersion := schemaVersion\<rparr>
                                       else full_scan c schemaVersion s'))
                    else full_scan c schemaVersion s))"

text \<open>
  The life of the process: the scheduler calls \<^verbatim>\<open>updateMap\<close> once per cycle, never two
  at a time. A cycle is what etcd answers and what \<^verbatim>\<open>getTableIDs\<close> is in it.
\<close>

fun run :: "client \<Rightarrow> ((string + string list) \<times> int64 list option) list \<Rightarrow> tidbLabelStrategy \<Rightarrow> tidbLabelStrategy" where
  "run c [] s = s"
| "run c ((etcd, getTableIDs) # cycles) s = run c cycles (updateMap c etcd getTableIDs s)"

text \<open>What one call added to the two effect logs.\<close>

definition new_sent :: "tidbLabelStrategy \<Rightarrow> tidbLabelStrategy \<Rightarrow> io_log" where
  "new_sent s s' = drop (length (sent s)) (sent s')"

definition new_stored :: "tidbLabelStrategy \<Rightarrow> tidbLabelStrategy \<Rightarrow> (int64 \<times> tableDetail) list" where
  "new_stored s s' = drop (length (stored s)) (stored s')"

section \<open>The label builder as the specification words it\<close>

text \<open>A run of \<^verbatim>\<open>Store\<close> calls, oldest first.\<close>

definition apply_stores :: "(int64 \<times> tableDetail) list \<Rightarrow> tidbLabelStrategy \<Rightarrow> tidbLabelStrategy" where
  "apply_stores kvs s = foldl (\<lambda>s' (k, v). Store k v s') s kvs"

text \<open>
  The index-name mapping of a table: index id to declared index name; of two indexes
  with one id the later in the list counts.
\<close>

definition spec_index_names :: "IndexInfo list \<Rightarrow> (int64 \<rightharpoonup> string)" where
  "spec_index_names ixs = map_of (rev (map (\<lambda>ix. (idx_ID ix, idx_Name_O ix)) ixs))"

text \<open>
  The labels of one table description: one for the table itself, then one for each
  partition, named \<open>table/partition\<close>, in the table's database, keyed by the partition
  id, with the table's index-name mapping.
\<close>

definition spec_labels :: "string \<Rightarrow> TableInfo \<Rightarrow> (int64 \<times> tableDetail) list" where
  "spec_labels dbname t =
     (tbl_ID t, \<lparr>Name = tbl_Name_O t, DB = dbname, ID = tbl_ID t,
                 Indices = spec_index_names (tbl_Indices t)\<rparr>) #
     (case GetPartitionInfo t of
        None \<Rightarrow> []
      | Some p \<Rightarrow>
          map (\<lambda>d. (def_ID d, \<lparr>Name = tbl_Name_O t @ ''/'' @ def_Name_O d, DB = dbname,
                               ID = def_ID d, Indices = spec_index_names (tbl_Indices t)\<rparr>))
              (Definitions p))"

text \<open>The ids a table description names: its own, then those of its partitions.\<close>

definition table_ids :: "TableInfo \<Rightarrow> int64 list" where
  "table_ids t =
     tbl_ID t # (case GetPartitionInfo t of None \<Rightarrow> [] | Some p \<Rightarrow> map def_ID (Definitions p))"

text \<open>The ids named by the descriptions in one response.\<close>

definition described_ids :: "response \<Rightarrow> int64 list" where
  "described_ids r =
     (case r of
        GotDBTableInfos dbTableInfos \<Rightarrow>
          concat (map (\<lambda>(_, dbTable). table_ids (dt_TableInfo dbTable)) dbTableInfos)
      | GotTableInfos tableInfos \<Rightarrow> concat (map table_ids tableInfos)
      | _ \<Rightarrow> [])"

text \<open>
  Fixed-size batches as the specification words them: the first \<open>k\<close> elements, then the
  batches of the rest; the last batch holds the remainder.
\<close>

fun spec_batches :: "nat \<Rightarrow> 'a list \<Rightarrow> 'a list list" where
  "spec_batches k xs = (if k = 0 \<or> xs = [] then [] else take k xs # spec_batches k (drop k xs))"

declare spec_batches.simps [simp del]

section \<open>Reading the log of requests\<close>

text \<open>An entry of the log is a \<^verbatim>\<open>/db-table\<close> request.\<close>

definition is_db_table :: "request \<times> response \<Rightarrow> bool" where
  "is_db_table pr = (case fst pr of DBTablePath _ \<Rightarrow> True | _ \<Rightarrow> False)"

text \<open>The request of an entry returned a non-nil error.\<close>

definition failed :: "request \<times> response \<Rightarrow> bool" where
  "failed pr = (case snd pr of Err _ \<Rightarrow> True | _ \<Rightarrow> False)"

text \<open>
  The not-found signal of line 88: a \<^verbatim>\<open>/db-table\<close> request failed and the text of its error
  contains \<^verbatim>\<open>404\<close>.
\<close>

definition not_found :: "request \<times> response \<Rightarrow> bool" where
  "not_found pr = (case pr of (DBTablePath _, Err msg) \<Rightarrow> Contains msg ''404'' | _ \<Rightarrow> False)"

text \<open>The labels of the descriptions one request fetched.\<close>

definition labels_of :: "request \<times> response \<Rightarrow> (int64 \<times> tableDetail) list" where
  "labels_of pr =
     (case pr of
        (DBTablePath _, GotDBTableInfos dbTableInfos) \<Rightarrow>
          concat (map (\<lambda>(_, dbTable). spec_labels (dt_DBInfo_Name_O dbTable) (dt_TableInfo dbTable))
                    dbTableInfos)
      | (SchemaDBPath dbname, GotTableInfos tableInfos) \<Rightarrow>
          concat (map (spec_labels dbname) tableInfos)
      | _ \<Rightarrow> [])"

text \<open>The \<^verbatim>\<open>/db-table\<close> requests of a log, and its other requests (those of the full scan).\<close>

definition db_table_part :: "io_log \<Rightarrow> io_log" where
  "db_table_part xs = filter is_db_table xs"

definition scan_part :: "io_log \<Rightarrow> io_log" where
  "scan_part xs = filter (\<lambda>pr. \<not> is_db_table pr) xs"

text \<open>A database the full scan does not skip.\<close>

definition alive :: "DBInfo \<Rightarrow> bool" where
  "alive db = (db_State db \<noteq> StateNone)"

text \<open>
  What a log of requests does to the strategy, the version apart: the requests are
  logged, the labels of every fetched description are stored in order, and the flag is
  set when a request gave the not-found signal.
\<close>

definition effect :: "io_log \<Rightarrow> tidbLabelStrategy \<Rightarrow> tidbLabelStrategy" where
  "effect xs s =
     s\<lparr>sent := sent s @ xs,
       stored := stored s @ concat (map labels_of xs),
       TableMap := TableMap s ++ map_of (rev (concat (map labels_of xs))),
       dbTableInfosEndpointNotFound := dbTableInfosEndpointNotFound s \<or> list_ex not_found xs\<rparr>"

text \<open>
  The log of the loop over the batches \<open>bs\<close>: one request for each batch in order, up to
  the first that fails.
\<close>

definition batch_log :: "int64 list list \<Rightarrow> io_log \<Rightarrow> bool" where
  "batch_log bs xs =
     (map fst xs = map DBTablePath (take (length xs) bs) \<and> length xs \<le> length bs
      \<and> (xs = [] \<longleftrightarrow> bs = [])
      \<and> (list_ex failed xs \<or> length xs = length bs)
      \<and> \<not> list_ex failed (butlast xs))"

text \<open>
  The log of a full scan: the request for the database list and, when it succeeded, one
  request for each database that is not skipped, in order.
\<close>

definition scan_log :: "io_log \<Rightarrow> bool" where
  "scan_log ys =
     (case ys of
        [] \<Rightarrow> False
      | (p, r) # zs \<Rightarrow>
          p = SchemaPath \<and>
          (case r of
             Err _ \<Rightarrow> zs = []
           | GotDBInfos dbInfos \<Rightarrow>
               map fst zs = map (\<lambda>db. SchemaDBPath (db_Name_O db)) (filter alive dbInfos)
           | _ \<Rightarrow> False))"

section \<open>Example inputs\<close>

text \<open>
  A strategy that has never completed a refresh, the same with the flag set, and one
  whose lookup holds a table that is no longer in the schema.
\<close>

definition s0 :: tidbLabelStrategy where
  "s0 = \<lparr>SchemaVersion = - 1, dbTableInfosEndpointNotFound = False, TableMap = Map.empty, sent = [], stored = []\<rparr>"

definition s0_not_found :: tidbLabelStrategy where
  "s0_not_found = s0\<lparr>dbTableInfosEndpointNotFound := True\<rparr>"

definition s_old :: tidbLabelStrategy where
  "s_old = s0\<lparr>TableMap := [99 \<mapsto> \<lparr>Name = ''gone'', DB = ''shop'', ID = 99, Indices = Map.empty\<rparr>]\<rparr>"

text \<open>
  A table with one index and one partition, and three databases: a live one that holds
  the table, a dropped one, and a live one whose table list the example servers refuse.
\<close>

definition orders_table :: TableInfo where
  "orders_table = \<lparr>tbl_ID = 7, tbl_Name_O = ''orders'',
     tbl_Indices = [\<lparr>idx_ID = 1, idx_Name_O = ''idx_a''\<rparr>],
     GetPartitionInfo = Some \<lparr>Definitions = [\<lparr>def_ID = 8, def_Name_O = ''p0''\<rparr>]\<rparr>\<rparr>"

definition shop_db :: DBInfo where
  "shop_db = \<lparr>db_Name_O = ''shop'', db_State = StateOther 5\<rparr>"

definition dropped_db :: DBInfo where
  "dropped_db = \<lparr>db_Name_O = ''old'', db_State = StateNone\<rparr>"

definition logs_db :: DBInfo where
  "logs_db = \<lparr>db_Name_O = ''logs'', db_State = StateOther 5\<rparr>"

text \<open>
  Four servers: one that serves the database \<open>shop\<close> on every endpoint, one without the \<^verbatim>\<open>/db-table\<close> endpoint,
  one whose \<^verbatim>\<open>/db-table\<close> endpoint fails for another reason, and one that lists a database
  whose table list it refuses.
\<close>

definition healthy :: client where
  "healthy = \<lparr>db_table = (\<lambda>log batch. Inr [(0, \<lparr>dt_DBInfo_Name_O = ''shop'', dt_TableInfo = orders_table\<rparr>)]),
              schema = (\<lambda>log. Inr [dropped_db, shop_db]),
              schema_db = (\<lambda>log dbname. if dbname = ''shop'' then Inr [orders_table]
                                          else Inl ''500 Internal Server Error'')\<rparr>"

definition no_endpoint :: client where
  "no_endpoint = healthy\<lparr>db_table := (\<lambda>log batch. Inl ''404 page not found'')\<rparr>"

definition flaky :: client where
  "flaky = healthy\<lparr>db_table := (\<lambda>log batch. Inl ''connection reset by peer'')\<rparr>"

definition one_db_down :: client where
  "one_db_down = healthy\<lparr>schema := (\<lambda>log. Inr [logs_db, shop_db])\<rparr>"

text \<open>
  517 distinct identifiers.
\<close>

definition ids517 :: "int64 list" where
  "ids517 = map of_nat [0..<517]"

section \<open>The builders are runs of stores\<close>

lemma apply_stores_Nil [simp]: "apply_stores [] s = s"
  by (simp add: apply_stores_def)

lemma apply_stores_Cons [simp]: "apply_stores ((k, v) # kvs) s = apply_stores kvs (Store k v s)"
  by (simp add: apply_stores_def)

lemma apply_stores_append: "apply_stores (xs @ ys) s = apply_stores ys (apply_stores xs s)"
  by (simp add: apply_stores_def)

lemma foldl_Store_map:
  "foldl (\<lambda>s' x. Store (f x) (g x) s') s xs = apply_stores (map (\<lambda>x. (f x, g x)) xs) s"
  by (induction xs arbitrary: s) simp_all

lemma build_indices_foldl:
  "foldl (\<lambda>m index. m(idx_ID index \<mapsto> idx_Name_O index)) m0 ixs =
   m0 ++ map_of (rev (map (\<lambda>ix. (idx_ID ix, idx_Name_O ix)) ixs))"
  by (induction ixs arbitrary: m0) (simp_all add: map_add_upd_left)

lemma build_indices_spec: "build_indices ixs = spec_index_names ixs"
  by (simp add: build_indices_def spec_index_names_def build_indices_foldl)

lemma updateTableMap_table_labels:
  "updateTableMap_table dbname t s = apply_stores (spec_labels dbname t) s"
  by (simp add: updateTableMap_table_def spec_labels_def Let_def foldl_Store_map build_indices_spec
           split: option.split)

lemma updateTableMapByDBTableInfos_entry_labels:
  "updateTableMapByDBTableInfos_entry dt s =
   apply_stores (spec_labels (dt_DBInfo_Name_O dt) (dt_TableInfo dt)) s"
  by (simp add: updateTableMapByDBTableInfos_entry_def spec_labels_def Let_def foldl_Store_map
           build_indices_spec split: option.split)

lemma foldl_apply_stores:
  "foldl (\<lambda>s' x. apply_stores (f x) s') s xs = apply_stores (concat (map f xs)) s"
  by (induction xs arbitrary: s) (simp_all add: apply_stores_append)

lemma updateTableMap_labels:
  "updateTableMap dbname ts s = apply_stores (concat (map (spec_labels dbname) ts)) s"
  by (simp add: updateTableMap_def updateTableMap_table_labels foldl_apply_stores)

lemma foldl_entry_labels:
  "foldl (\<lambda>s' (_, dbTable). updateTableMapByDBTableInfos_entry dbTable s') s xs =
   apply_stores (concat (map (\<lambda>(k, dt). spec_labels (dt_DBInfo_Name_O dt) (dt_TableInfo dt)) xs)) s"
  by (induction xs arbitrary: s)
     (simp_all add: updateTableMapByDBTableInfos_entry_labels apply_stores_append split: prod.split)

lemma updateTableMapByDBTableInfos_labels:
  "updateTableMapByDBTableInfos xs s =
   apply_stores (concat (map (\<lambda>(k, dt). spec_labels (dt_DBInfo_Name_O dt) (dt_TableInfo dt)) xs)) s"
  by (simp add: updateTableMapByDBTableInfos_def foldl_entry_labels)

lemma apply_stores_fields [simp]:
  "SchemaVersion (apply_stores kvs s) = SchemaVersion s"
  "dbTableInfosEndpointNotFound (apply_stores kvs s) = dbTableInfosEndpointNotFound s"
  "sent (apply_stores kvs s) = sent s"
  "stored (apply_stores kvs s) = stored s @ kvs"
  "TableMap (apply_stores kvs s) = TableMap s ++ map_of (rev kvs)"
  by (induction kvs arbitrary: s) (auto simp: Store_def map_add_upd_left)

lemma new_stored_apply_stores [simp]: "new_stored s (apply_stores kvs s) = kvs"
  by (simp add: new_stored_def)

lemma map_fst_spec_labels: "map fst (spec_labels dbname t) = table_ids t"
  by (simp add: spec_labels_def table_ids_def comp_def split: option.split)

lemma map_fst_labels_of: "set (map fst (labels_of (p, r))) \<subseteq> set (described_ids r)"
proof -
  have a: "map fst (concat (map (spec_labels dbname) ts)) = concat (map table_ids ts)" for dbname ts
    by (induction ts) (simp_all add: map_fst_spec_labels)
  have b: "map fst (concat (map (\<lambda>(_, dbTable). spec_labels (dt_DBInfo_Name_O dbTable) (dt_TableInfo dbTable)) xs))
      = concat (map (\<lambda>(_, dbTable). table_ids (dt_TableInfo dbTable)) xs)" for xs :: "(int \<times> DBTableInfo) list"
    by (induction xs) (simp_all add: map_fst_spec_labels split: prod.split)
  show ?thesis
    by (cases p; cases r) (simp_all add: labels_of_def described_ids_def a b)
qed

lemma stored_ids_described:
  "fst ` set (concat (map labels_of xs)) \<subseteq> set (concat (map (\<lambda>pr. described_ids (snd pr)) xs))"
proof (induction xs)
  case Nil
  show ?case by simp
next
  case (Cons pr xs)
  obtain p r where pr: "pr = (p, r)" by (cases pr)
  from map_fst_labels_of [of p r] have "fst ` set (labels_of (p, r)) \<subseteq> set (described_ids r)"
    by simp
  with Cons.IH show ?case by (auto simp: pr)
qed

lemma dom_map_add_grows: "dom m \<subseteq> dom (m ++ m')"
  by auto

section \<open>Every loop is the effect of its log\<close>

lemma effect_Nil [simp]: "effect [] s = s"
  by (simp add: effect_def)

lemma effect_effect [simp]: "effect ys (effect xs s) = effect (xs @ ys) s"
  by (simp add: effect_def disj_assoc)

lemma effect_fields [simp]:
  "SchemaVersion (effect xs s) = SchemaVersion s"
  "sent (effect xs s) = sent s @ xs"
  "stored (effect xs s) = stored s @ concat (map labels_of xs)"
  "TableMap (effect xs s) = TableMap s ++ map_of (rev (concat (map labels_of xs)))"
  "dbTableInfosEndpointNotFound (effect xs s) = (dbTableInfosEndpointNotFound s \<or> list_ex not_found xs)"
  by (simp_all add: effect_def)

lemma effect_after_commit:
  "effect ys ((effect xs s)\<lparr>SchemaVersion := w\<rparr>) = (effect (xs @ ys) s)\<lparr>SchemaVersion := w\<rparr>"
  by (simp add: effect_def disj_assoc)

lemma apply_stores_state:
  "apply_stores kvs s = s\<lparr>stored := stored s @ kvs, TableMap := TableMap s ++ map_of (rev kvs)\<rparr>"
  by (rule tidbLabelStrategy.equality) simp_all

lemma logged_failed: "logged p (Err msg) s = effect [(p, Err msg)] s"
  if "p = SchemaPath \<or> (\<exists>n. p = SchemaDBPath n)"
  using that by (auto simp: logged_def effect_def labels_of_def not_found_def)

lemma logged_db_table_failed:
  "\<not> Contains msg ''404'' \<Longrightarrow> logged (DBTablePath b) (Err msg) s = effect [(DBTablePath b, Err msg)] s"
  "Contains msg ''404'' \<Longrightarrow>
     (logged (DBTablePath b) (Err msg) s)\<lparr>dbTableInfosEndpointNotFound := True\<rparr> = effect [(DBTablePath b, Err msg)] s"
  by (auto simp: logged_def effect_def labels_of_def not_found_def)

lemma logged_schema: "logged SchemaPath (GotDBInfos dbs) s = effect [(SchemaPath, GotDBInfos dbs)] s"
  by (simp add: logged_def effect_def labels_of_def not_found_def)

lemma logged_db_table_applied:
  "updateTableMapByDBTableInfos infos (logged (DBTablePath b) (GotDBTableInfos infos) s)
   = effect [(DBTablePath b, GotDBTableInfos infos)] s"
  by (simp add: updateTableMapByDBTableInfos_labels apply_stores_state logged_def effect_def
        labels_of_def not_found_def)

lemma logged_schema_db_applied:
  "updateTableMap n ts (logged (SchemaDBPath n) (GotTableInfos ts) s)
   = effect [(SchemaDBPath n, GotTableInfos ts)] s"
  by (simp add: updateTableMap_labels apply_stores_state logged_def effect_def
        labels_of_def not_found_def)

lemma failed_simps [simp]:
  "failed (p, Err msg)"
  "\<not> failed (p, GotDBTableInfos infos)"
  "\<not> failed (p, GotDBInfos dbs)"
  "\<not> failed (p, GotTableInfos ts)"
  by (simp_all add: failed_def)

lemma request_batches_effect:
  "\<exists>xs. request_batches c bs s = (\<not> list_ex failed xs, effect xs s)
      \<and> map fst xs = map DBTablePath (take (length xs) bs)
      \<and> (bs \<noteq> [] \<longrightarrow> xs \<noteq> [])
      \<and> (\<not> list_ex failed xs \<longrightarrow> length xs = length bs)
      \<and> \<not> list_ex failed (butlast xs)"
proof (induction bs arbitrary: s)
  case Nil
  show ?case by (rule exI [of _ "[]"]) simp
next
  case (Cons b bs)
  show ?case
  proof (cases "db_table c (sent s) b")
    case (Inl msg)
    show ?thesis
      by (rule exI [of _ "[(DBTablePath b, Err msg)]"])
         (simp add: Inl logged_db_table_failed)
  next
    case (Inr infos)
    let ?e = "(DBTablePath b, GotDBTableInfos infos)"
    from Cons.IH [of "effect [?e] s"] obtain xs where
      xs: "request_batches c bs (effect [?e] s) = (\<not> list_ex failed xs, effect xs (effect [?e] s))"
        "map fst xs = map DBTablePath (take (length xs) bs)"
        "bs \<noteq> [] \<longrightarrow> xs \<noteq> []"
        "\<not> list_ex failed xs \<longrightarrow> length xs = length bs"
        "\<not> list_ex failed (butlast xs)"
      by blast
    show ?thesis
      by (rule exI [of _ "?e # xs"])
         (use xs in \<open>simp add: Inr logged_db_table_applied\<close>)
  qed
qed

lemma scan_dbs_effect:
  "\<exists>xs. scan_dbs c dbs ok s = (ok \<and> \<not> list_ex failed xs, effect xs s)
      \<and> map fst xs = map (\<lambda>db. SchemaDBPath (db_Name_O db)) (filter alive dbs)"
proof (induction dbs arbitrary: ok s)
  case Nil
  show ?case by (rule exI [of _ "[]"]) simp
next
  case (Cons db dbs)
  show ?case
  proof (cases "db_State db = StateNone")
    case True
    then have "\<not> alive db" by (simp add: alive_def)
    with Cons.IH [of ok s] show ?thesis by (simp add: True)
  next
    case False
    then have db: "alive db" by (simp add: alive_def)
    show ?thesis
    proof (cases "schema_db c (sent s) (db_Name_O db)")
      case (Inl msg)
      let ?e = "(SchemaDBPath (db_Name_O db), Err msg)"
      from Cons.IH [of False "effect [?e] s"] obtain xs where
        xs: "scan_dbs c dbs False (effect [?e] s) = (False, effect xs (effect [?e] s))"
            "map fst xs = map (\<lambda>db. SchemaDBPath (db_Name_O db)) (filter alive dbs)"
        by auto
      show ?thesis
        by (rule exI [of _ "?e # xs"])
           (use xs False db in \<open>simp add: Inl logged_failed\<close>)
    next
      case (Inr ts)
      let ?e = "(SchemaDBPath (db_Name_O db), GotTableInfos ts)"
      from Cons.IH [of ok "effect [?e] s"] obtain xs where
        xs: "scan_dbs c dbs ok (effect [?e] s) = (ok \<and> \<not> list_ex failed xs, effect xs (effect [?e] s))"
            "map fst xs = map (\<lambda>db. SchemaDBPath (db_Name_O db)) (filter alive dbs)"
        by auto
      show ?thesis
        by (rule exI [of _ "?e # xs"])
           (use xs False db in \<open>simp add: Inr logged_schema_db_applied\<close>)
    qed
  qed
qed

lemma scan_dbs_append:
  "scan_dbs c (xs @ ys) ok s = (case scan_dbs c xs ok s of (ok', s') \<Rightarrow> scan_dbs c ys ok' s')"
  by (induction xs arbitrary: ok s) (simp_all split: sum.split)

lemma scan_dbs_filter_alive:
  "scan_dbs c (filter alive dbs) ok s = scan_dbs c dbs ok s"
proof (induction dbs arbitrary: ok s)
  case Nil
  show ?case by simp
next
  case (Cons db dbs)
  show ?case
  proof (cases "alive db")
    case True
    then have "db_State db \<noteq> StateNone" by (simp add: alive_def)
    with True Cons.IH show ?thesis by (simp split: sum.split)
  next
    case False
    then have "db_State db = StateNone" by (simp add: alive_def)
    with False Cons.IH show ?thesis by simp
  qed
qed

lemma scan_dbs_False: "fst (scan_dbs c dbs False s) = False"
  using scan_dbs_effect [of c dbs False s] by auto

lemma new_sent_effect [simp]:
  "new_sent s (effect xs s) = xs"
  "new_sent s ((effect xs s)\<lparr>SchemaVersion := v\<rparr>) = xs"
  "new_sent s s = []"
  by (simp_all add: new_sent_def)

lemma new_stored_effect [simp]:
  "new_stored s (effect xs s) = concat (map labels_of xs)"
  "new_stored s ((effect xs s)\<lparr>SchemaVersion := v\<rparr>) = concat (map labels_of xs)"
  "new_stored s s = []"
  by (simp_all add: new_stored_def)

lemma parts_append:
  "list_all is_db_table xs \<Longrightarrow> \<not> list_ex is_db_table ys \<Longrightarrow> db_table_part (xs @ ys) = xs"
  "list_all is_db_table xs \<Longrightarrow> \<not> list_ex is_db_table ys \<Longrightarrow> scan_part (xs @ ys) = ys"
  by (auto simp: db_table_part_def scan_part_def list_all_iff list_ex_iff filter_empty_conv
           intro: filter_True)

lemma batch_log_Nil [simp]: "batch_log bs [] \<longleftrightarrow> bs = []"
  by (auto simp: batch_log_def)

lemma scan_log_nonempty: "scan_log ys \<Longrightarrow> ys \<noteq> []"
  by (auto simp: scan_log_def)

lemma scan_log_requests:
  "scan_log ((SchemaPath, GotDBInfos dbs) # zs) \<Longrightarrow>
   map fst zs = map (\<lambda>db. SchemaDBPath (db_Name_O db)) (filter alive dbs)"
  by (simp add: scan_log_def)

lemma request_batches_log:
  obtains xs where "request_batches c bs s = (\<not> list_ex failed xs, effect xs s)" "batch_log bs xs"
proof -
  from request_batches_effect [of c bs s] obtain xs where
    run: "request_batches c bs s = (\<not> list_ex failed xs, effect xs s)"
    and reqs: "map fst xs = map DBTablePath (take (length xs) bs)"
    and nonempty: "bs \<noteq> [] \<longrightarrow> xs \<noteq> []"
    and all: "\<not> list_ex failed xs \<longrightarrow> length xs = length bs"
    and last: "\<not> list_ex failed (butlast xs)"
    by blast
  from reqs have "length (map fst xs) = length (map DBTablePath (take (length xs) bs))"
    by (rule arg_cong)
  then have le: "length xs \<le> length bs" by simp
  with nonempty have "xs = [] \<longleftrightarrow> bs = []" by auto
  with reqs le all last have "batch_log bs xs" unfolding batch_log_def by blast
  with run show thesis by (rule that)
qed

lemma full_scan_log:
  obtains ys where
    "full_scan c n s = (effect ys s)\<lparr>SchemaVersion := if list_ex failed ys then SchemaVersion s else n\<rparr>"
    "scan_log ys"
proof (cases "schema c (sent s)")
  case (Inl msg)
  show thesis
    by (rule that [of "[(SchemaPath, Err msg)]"])
       (simp_all add: full_scan_def Inl logged_failed scan_log_def)
next
  case (Inr dbs)
  let ?e = "(SchemaPath, GotDBInfos dbs)"
  from scan_dbs_effect [of c dbs True "effect [?e] s"] obtain zs where
    zs: "scan_dbs c dbs True (effect [?e] s) = (\<not> list_ex failed zs, effect zs (effect [?e] s))"
        "map fst zs = map (\<lambda>db. SchemaDBPath (db_Name_O db)) (filter alive dbs)"
    by auto
  show thesis
    by (rule that [of "?e # zs"])
       (use zs in \<open>simp_all add: full_scan_def Inr logged_schema scan_log_def\<close>)
qed

lemma batch_log_db_table: "batch_log bs xs \<Longrightarrow> list_all is_db_table xs"
proof -
  assume "batch_log bs xs"
  then have "map fst xs = map DBTablePath (take (length xs) bs)" by (simp add: batch_log_def)
  then have "\<forall>p \<in> set (map fst xs). \<exists>b. p = DBTablePath b" by auto
  then show ?thesis by (auto simp: list_all_iff is_db_table_def)
qed

lemma scan_log_not_db_table: "scan_log ys \<Longrightarrow> \<not> list_ex is_db_table ys"
proof -
  assume a: "scan_log ys"
  then obtain p r zs where ys: "ys = (p, r) # zs" "p = SchemaPath"
    by (cases ys) (auto simp: scan_log_def)
  have "\<forall>q \<in> set (map fst zs). \<exists>n. q = SchemaDBPath n"
    using a ys by (cases r) (auto simp: scan_log_def)
  then show ?thesis using ys by (auto simp: list_ex_iff is_db_table_def)
qed

section \<open>The batches\<close>

lemma spec_batches_Nil [simp]: "spec_batches k [] = []"
  by (simp add: spec_batches.simps)

lemma spec_batches_step:
  "0 < k \<Longrightarrow> xs \<noteq> [] \<Longrightarrow> spec_batches k xs = take k xs # spec_batches k (drop k xs)"
  by (subst spec_batches.simps) simp

lemma batch_loop_spec:
  "length batch = n \<Longrightarrow> n < tableInfosBatchSize \<Longrightarrow>
   (case batch_loop ids tableIDBatches batch n of
      (bs, b) \<Rightarrow> (if length b > 0 then bs @ [b] else bs))
   = tableIDBatches @ spec_batches tableInfosBatchSize (batch @ ids)"
proof (induction ids arbitrary: tableIDBatches batch n)
  case Nil
  then show ?case
    by (cases "batch = []") (simp_all add: spec_batches_step)
next
  case (Cons tid ids)
  show ?case
  proof (cases "n + 1 = tableInfosBatchSize")
    case True
    with Cons.prems have size: "tableInfosBatchSize = Suc (length batch)" by simp
    have full: "take tableInfosBatchSize (batch @ tid # ids) = batch @ [tid]"
      "drop tableInfosBatchSize (batch @ tid # ids) = ids"
      by (simp_all add: size)
    have pos: "0 < tableInfosBatchSize" using True by simp
    have "spec_batches tableInfosBatchSize (batch @ tid # ids)
          = (batch @ [tid]) # spec_batches tableInfosBatchSize ids"
      using spec_batches_step [OF pos, of "batch @ tid # ids"] full by simp
    with True Cons.IH [of "[]" 0 "tableIDBatches @ [batch @ [tid]]"] pos show ?thesis
      by simp
  next
    case False
    with Cons.prems Cons.IH [of "batch @ [tid]" "n + 1" tableIDBatches] show ?thesis
      by simp
  qed
qed

lemma make_batches_spec: "make_batches tableIDs = spec_batches tableInfosBatchSize tableIDs"
  using batch_loop_spec [of "[]" 0 tableIDs "[]"]
  by (simp add: make_batches_def tableInfosBatchSize_def)

lemma concat_spec_batches: "0 < k \<Longrightarrow> concat (spec_batches k xs) = xs"
proof (induction k xs rule: spec_batches.induct)
  case (1 k xs)
  then show ?case
    by (cases "xs = []") (simp_all add: spec_batches_step)
qed

lemma lengths_spec_batches:
  "0 < k \<Longrightarrow> map length (spec_batches k xs) =
     replicate (length xs div k) k @ (if length xs mod k = 0 then [] else [length xs mod k])"
proof (induction k xs rule: spec_batches.induct)
  case (1 k xs)
  show ?case
  proof (cases "xs = []")
    case True
    then show ?thesis by simp
  next
    case False
    show ?thesis
    proof (cases "k \<le> length xs")
      case True
      from True \<open>0 < k\<close> have d1: "length xs div k = Suc ((length xs - k) div k)"
        by (simp add: le_div_geq)
      from True have d2: "length xs mod k = (length xs - k) mod k"
        by (simp add: le_mod_geq)
      have "map length (spec_batches k xs) = k # map length (spec_batches k (drop k xs))"
        using spec_batches_step [OF \<open>0 < k\<close> False] True by simp
      also have "map length (spec_batches k (drop k xs)) =
          replicate ((length xs - k) div k) k @
            (if (length xs - k) mod k = 0 then [] else [(length xs - k) mod k])"
        using "1.IH" False \<open>0 < k\<close> by simp
      finally show ?thesis
        by (simp only: d1 d2 replicate_Suc append_Cons)
    next
      case short: False
      then have "spec_batches k xs = [xs]"
        using spec_batches_step [OF \<open>0 < k\<close> False] by simp
      with short False show ?thesis by simp
    qed
  qed
qed

lemma ceil_div_512:
  "(n + 511) div 512 = n div 512 + (if n mod 512 = 0 then 0 else 1)" for n :: nat
proof -
  define q r where "q = n div 512" and "r = n mod 512"
  have n: "n = q * 512 + r" and r: "r < 512" by (simp_all add: q_def r_def)
  have "(r + 511) div 512 = (if r = 0 then 0 else 1)"
  proof (cases "r = 0")
    case True
    then show ?thesis by simp
  next
    case False
    with r have "(r + 511) div 512 = 1" by (intro div_nat_eqI) simp_all
    with False show ?thesis by simp
  qed
  moreover have "(n + 511) div 512 = q + (r + 511) div 512"
    unfolding n by (simp add: add.assoc)
  ultimately show ?thesis by (simp add: q_def r_def)
qed

lemma length_make_batches:
  "length (make_batches tableIDs) = (length tableIDs + 511) div 512"
proof -
  have "length (make_batches tableIDs) = length (map length (make_batches tableIDs))" by simp
  also have "\<dots> = length tableIDs div 512 + (if length tableIDs mod 512 = 0 then 0 else 1)"
    by (simp add: make_batches_spec lengths_spec_batches tableInfosBatchSize_def)
  finally show ?thesis by (simp only: ceil_div_512)
qed

lemma make_batches_Nil_iff: "make_batches tableIDs = [] \<longleftrightarrow> tableIDs = []"
proof (cases "tableIDs = []")
  case True
  then show ?thesis by (simp add: make_batches_spec)
next
  case False
  then show ?thesis
    by (simp add: make_batches_spec spec_batches_step tableInfosBatchSize_def)
qed

section \<open>The shapes of a refresh cycle\<close>

lemma updateMap_changed:
  assumes "etcd = Inr [v]" "ParseInt v = Some n" "n \<noteq> SchemaVersion s"
  obtains
    (nothing) tableIDs where "getTableIDs = Some tableIDs" "\<not> dbTableInfosEndpointNotFound s"
      "tableIDs = []" "updateMap c etcd getTableIDs s = s"
  | (batched) tableIDs xs where "getTableIDs = Some tableIDs" "\<not> dbTableInfosEndpointNotFound s"
      "tableIDs \<noteq> []" "batch_log (make_batches tableIDs) xs" "\<not> list_ex failed xs"
      "updateMap c etcd getTableIDs s = (effect xs s)\<lparr>SchemaVersion := n\<rparr>"
  | (fallback) tableIDs xs ys where "getTableIDs = Some tableIDs" "\<not> dbTableInfosEndpointNotFound s"
      "tableIDs \<noteq> []" "batch_log (make_batches tableIDs) xs" "list_ex failed xs" "scan_log ys"
      "updateMap c etcd getTableIDs s =
         (effect (xs @ ys) s)\<lparr>SchemaVersion := if list_ex failed ys then SchemaVersion s else n\<rparr>"
  | (scan) ys where "getTableIDs = None \<or> dbTableInfosEndpointNotFound s" "scan_log ys"
      "updateMap c etcd getTableIDs s =
         (effect ys s)\<lparr>SchemaVersion := if list_ex failed ys then SchemaVersion s else n\<rparr>"
proof (cases "getTableIDs \<noteq> None \<and> \<not> dbTableInfosEndpointNotFound s")
  case False
  obtain ys where ys: "full_scan c n s = (effect ys s)\<lparr>SchemaVersion := if list_ex failed ys then SchemaVersion s else n\<rparr>"
    "scan_log ys" by (rule full_scan_log)
  from False assms ys have "updateMap c etcd getTableIDs s =
         (effect ys s)\<lparr>SchemaVersion := if list_ex failed ys then SchemaVersion s else n\<rparr>"
    by (auto simp: updateMap_def)
  with False ys(2) show thesis by (auto intro: scan)
next
  case True
  then obtain tableIDs where ids: "getTableIDs = Some tableIDs" "\<not> dbTableInfosEndpointNotFound s"
    by auto
  show thesis
  proof (cases "tableIDs = []")
    case True
    with ids assms have "updateMap c etcd getTableIDs s = s"
      by (simp add: updateMap_def)
    with ids True show thesis by (rule nothing)
  next
    case False
    obtain xs where xs: "request_batches c (make_batches tableIDs) s = (\<not> list_ex failed xs, effect xs s)"
      "batch_log (make_batches tableIDs) xs" by (rule request_batches_log)
    show thesis
    proof (cases "list_ex failed xs")
      case no: False
      with ids assms False xs have "updateMap c etcd getTableIDs s = (effect xs s)\<lparr>SchemaVersion := n\<rparr>"
        by (simp add: updateMap_def)
      with ids False xs(2) no show thesis by (rule batched)
    next
      case yes: True
      obtain ys where ys: "full_scan c n (effect xs s) =
          (effect ys (effect xs s))\<lparr>SchemaVersion := if list_ex failed ys then SchemaVersion (effect xs s) else n\<rparr>"
        "scan_log ys" by (rule full_scan_log)
      with ids assms False xs yes have "updateMap c etcd getTableIDs s =
         (effect (xs @ ys) s)\<lparr>SchemaVersion := if list_ex failed ys then SchemaVersion s else n\<rparr>"
        by (simp add: updateMap_def)
      with ids False xs(2) yes ys(2) show thesis by (rule fallback)
    qed
  qed
qed

lemma updateMap_summary:
  assumes "etcd = Inr [v]" "ParseInt v = Some n" "n \<noteq> SchemaVersion s"
  obtains xs ys where
    "updateMap c etcd getTableIDs s =
       (effect (xs @ ys) s)\<lparr>SchemaVersion :=
          if (xs \<noteq> [] \<and> \<not> list_ex failed xs) \<or> (ys \<noteq> [] \<and> \<not> list_ex failed ys)
          then n else SchemaVersion s\<rparr>"
    "list_all is_db_table xs" "\<not> list_ex is_db_table ys"
    "if getTableIDs \<noteq> None \<and> \<not> dbTableInfosEndpointNotFound s
     then batch_log (make_batches (the getTableIDs)) xs else xs = []"
    "ys = [] \<or> scan_log ys"
    "ys \<noteq> [] \<longleftrightarrow> getTableIDs = None \<or> dbTableInfosEndpointNotFound s \<or> list_ex failed xs"
proof (rule updateMap_changed [OF assms, where c = c and getTableIDs = getTableIDs], goal_cases)
  case (1 tableIDs)
  show thesis
    by (rule that [where xs = "[]" and ys = "[]"]) (use 1 in \<open>simp_all add: make_batches_Nil_iff\<close>)
next
  case (2 tableIDs xs)
  then have "xs \<noteq> []" by (auto simp: make_batches_Nil_iff)
  show thesis
    by (rule that [where xs = xs and ys = "[]"])
       (use 2 \<open>xs \<noteq> []\<close> in \<open>simp_all add: batch_log_db_table\<close>)
next
  case (3 tableIDs xs ys)
  show thesis
    by (rule that [where xs = xs and ys = ys])
       (use 3 in \<open>simp_all add: batch_log_db_table scan_log_not_db_table scan_log_nonempty\<close>)
next
  case (4 ys)
  show thesis
    by (rule that [where xs = "[]" and ys = ys])
       (use 4 in \<open>auto simp: scan_log_not_db_table scan_log_nonempty\<close>)
qed

lemma updateMap_skip:
  assumes "(\<exists>err. etcd = Inl err) \<or> (\<exists>kvs. etcd = Inr kvs \<and> length kvs \<noteq> 1)
     \<or> (\<exists>v. etcd = Inr [v] \<and> ParseInt v = None)
     \<or> (\<exists>v. etcd = Inr [v] \<and> ParseInt v = Some (SchemaVersion s))"
  shows "updateMap c etcd getTableIDs s = s"
  using assms by (auto simp: updateMap_def)

lemma updateMap_skip_or_changed:
  obtains (skip) "updateMap c etcd getTableIDs s = s"
  | (changed) v n where "etcd = Inr [v]" "ParseInt v = Some n" "n \<noteq> SchemaVersion s"
proof (cases etcd)
  case (Inl err)
  then show thesis by (intro skip updateMap_skip) simp
next
  case (Inr kvs)
  show thesis
  proof (cases "length kvs = 1")
    case False
    with Inr show thesis by (intro skip updateMap_skip) simp
  next
    case True
    then obtain v where v: "kvs = [v]" by (cases kvs) auto
    show thesis
    proof (cases "ParseInt v")
      case None
      with Inr v show thesis by (intro skip updateMap_skip) simp
    next
      case (Some n)
      show thesis
      proof (cases "n = SchemaVersion s")
        case True
        with Inr v Some show thesis by (intro skip updateMap_skip) simp
      next
        case False
        with Inr v Some show thesis by (intro changed) simp_all
      qed
    qed
  qed
qed

lemma updateMap_effect:
  obtains xs w where "updateMap c etcd getTableIDs s = (effect xs s)\<lparr>SchemaVersion := w\<rparr>"
    "dbTableInfosEndpointNotFound s \<longrightarrow> \<not> list_ex is_db_table xs"
proof (cases rule: updateMap_skip_or_changed [of c etcd getTableIDs s])
  case skip
  show thesis
    by (rule that [where xs = "[]" and w = "SchemaVersion s"]) (simp_all add: skip)
next
  case (changed v n)
  then obtain xs ys where *: "updateMap c etcd getTableIDs s =
       (effect (xs @ ys) s)\<lparr>SchemaVersion :=
          if (xs \<noteq> [] \<and> \<not> list_ex failed xs) \<or> (ys \<noteq> [] \<and> \<not> list_ex failed ys)
          then n else SchemaVersion s\<rparr>"
    "list_all is_db_table xs" "\<not> list_ex is_db_table ys"
    "if getTableIDs \<noteq> None \<and> \<not> dbTableInfosEndpointNotFound s
     then batch_log (make_batches (the getTableIDs)) xs else xs = []"
    by (rule updateMap_summary)
  show thesis
    by (rule that [OF *(1)]) (use *(2-4) in \<open>auto simp: list_ex_iff\<close>)
qed

lemma run_effect:
  obtains xs w where "run c cycles s = (effect xs s)\<lparr>SchemaVersion := w\<rparr>"
    "dbTableInfosEndpointNotFound s \<longrightarrow> \<not> list_ex is_db_table xs"
proof -
  have "\<exists>xs w. run c cycles s = (effect xs s)\<lparr>SchemaVersion := w\<rparr>
          \<and> (dbTableInfosEndpointNotFound s \<longrightarrow> \<not> list_ex is_db_table xs)"
  proof (induction cycles arbitrary: s)
    case Nil
    have "run c [] s = (effect [] s)\<lparr>SchemaVersion := SchemaVersion s\<rparr>" by simp
    then show ?case by (intro exI [of _ "[]"] exI [of _ "SchemaVersion s"]) simp
  next
    case (Cons cycle cycles)
    obtain etcd getTableIDs where cycle: "cycle = (etcd, getTableIDs)" by (cases cycle)
    obtain xs w where first: "updateMap c etcd getTableIDs s = (effect xs s)\<lparr>SchemaVersion := w\<rparr>"
      "dbTableInfosEndpointNotFound s \<longrightarrow> \<not> list_ex is_db_table xs"
      by (rule updateMap_effect)
    from Cons.IH [of "(effect xs s)\<lparr>SchemaVersion := w\<rparr>"] obtain ys w' where
      rest: "run c cycles ((effect xs s)\<lparr>SchemaVersion := w\<rparr>)
               = (effect ys ((effect xs s)\<lparr>SchemaVersion := w\<rparr>))\<lparr>SchemaVersion := w'\<rparr>"
        "dbTableInfosEndpointNotFound ((effect xs s)\<lparr>SchemaVersion := w\<rparr>) \<longrightarrow> \<not> list_ex is_db_table ys"
      by blast
    have "run c (cycle # cycles) s = (effect (xs @ ys) s)\<lparr>SchemaVersion := w'\<rparr>"
      by (simp add: cycle first rest effect_after_commit)
    moreover have "dbTableInfosEndpointNotFound s \<longrightarrow> \<not> list_ex is_db_table (xs @ ys)"
      using first(2) rest(2) by (auto simp: list_ex_iff)
    ultimately show ?case by blast
  qed
  then show thesis using that by blast
qed

lemma updateMap_scan_part:
  "scan_part (new_sent s (updateMap c etcd getTableIDs s)) = []
   \<or> scan_log (scan_part (new_sent s (updateMap c etcd getTableIDs s)))"
proof (cases rule: updateMap_skip_or_changed [of c etcd getTableIDs s])
  case skip
  then show ?thesis by (simp add: scan_part_def)
next
  case (changed v n)
  obtain xs ys where sum:
    "updateMap c etcd getTableIDs s =
       (effect (xs @ ys) s)\<lparr>SchemaVersion :=
          if (xs \<noteq> [] \<and> \<not> list_ex failed xs) \<or> (ys \<noteq> [] \<and> \<not> list_ex failed ys)
          then n else SchemaVersion s\<rparr>"
    "list_all is_db_table xs" "\<not> list_ex is_db_table ys"
    "ys = [] \<or> scan_log ys"
    using updateMap_summary [OF changed, of c getTableIDs] by metis
  have "scan_part (new_sent s (updateMap c etcd getTableIDs s)) = ys"
    by (simp add: sum(1) parts_append sum(2,3))
  with sum(4) show ?thesis by simp
qed

lemma updateMap_failed_scan:
  assumes "list_ex failed (scan_part (new_sent s (updateMap c etcd getTableIDs s)))"
  shows "SchemaVersion (updateMap c etcd getTableIDs s) = SchemaVersion s"
proof (cases rule: updateMap_skip_or_changed [of c etcd getTableIDs s])
  case skip
  then show ?thesis by simp
next
  case (changed v n)
  obtain xs ys where sum:
    "updateMap c etcd getTableIDs s =
       (effect (xs @ ys) s)\<lparr>SchemaVersion :=
          if (xs \<noteq> [] \<and> \<not> list_ex failed xs) \<or> (ys \<noteq> [] \<and> \<not> list_ex failed ys)
          then n else SchemaVersion s\<rparr>"
    "list_all is_db_table xs" "\<not> list_ex is_db_table ys"
    "if getTableIDs \<noteq> None \<and> \<not> dbTableInfosEndpointNotFound s
     then batch_log (make_batches (the getTableIDs)) xs else xs = []"
    "ys \<noteq> [] \<longleftrightarrow> getTableIDs = None \<or> dbTableInfosEndpointNotFound s \<or> list_ex failed xs"
    using updateMap_summary [OF changed, of c getTableIDs] by metis
  have part: "scan_part (new_sent s (updateMap c etcd getTableIDs s)) = ys"
    by (simp add: sum(1) parts_append sum(2,3))
  with assms have f: "list_ex failed ys" by simp
  then have "ys \<noteq> []" by auto
  with sum(4,5) have "xs = [] \<or> list_ex failed xs" by auto
  with f show ?thesis by (auto simp: sum(1))
qed

lemma not_found_failed: "not_found pr \<Longrightarrow> failed pr \<and> is_db_table pr"
  by (auto simp: not_found_def failed_def is_db_table_def
        split: prod.splits request.splits response.splits)

lemma batch_log_one_failure:
  assumes "batch_log bs xs" and "pr \<in> set xs" and "failed pr"
  shows "pr = last xs"
proof (cases xs rule: rev_cases)
  case Nil
  with assms(2) show ?thesis by simp
next
  case (snoc ys y)
  from assms(1) have "\<not> list_ex failed (butlast xs)" by (simp add: batch_log_def)
  with assms(3) snoc have "pr \<notin> set ys" by (auto simp: list_ex_iff)
  with assms(2) snoc show ?thesis by simp
qed

lemma updateMap_other_failure:
  assumes "\<not> dbTableInfosEndpointNotFound s"
    and "(DBTablePath b, Err msg) \<in> set (new_sent s (updateMap c etcd getTableIDs s))"
    and "\<not> Contains msg ''404''"
  shows "\<not> dbTableInfosEndpointNotFound (updateMap c etcd getTableIDs s)"
proof (cases rule: updateMap_skip_or_changed [of c etcd getTableIDs s])
  case skip
  with assms(1) show ?thesis by simp
next
  case (changed v n)
  obtain xs ys where sum:
    "updateMap c etcd getTableIDs s =
       (effect (xs @ ys) s)\<lparr>SchemaVersion :=
          if (xs \<noteq> [] \<and> \<not> list_ex failed xs) \<or> (ys \<noteq> [] \<and> \<not> list_ex failed ys)
          then n else SchemaVersion s\<rparr>"
    "list_all is_db_table xs" "\<not> list_ex is_db_table ys"
    "if getTableIDs \<noteq> None \<and> \<not> dbTableInfosEndpointNotFound s
     then batch_log (make_batches (the getTableIDs)) xs else xs = []"
    using updateMap_summary [OF changed, of c getTableIDs] by metis
  let ?e = "(DBTablePath b, Err msg)"
  from assms(2) have "?e \<in> set xs \<union> set ys" by (simp add: sum(1))
  moreover have "?e \<notin> set ys"
    using sum(3) by (auto simp: list_ex_iff is_db_table_def)
  ultimately have mem: "?e \<in> set xs" by simp
  then have "xs \<noteq> []" by auto
  with sum(4) obtain bs where bl: "batch_log bs xs" by (auto split: if_splits)
  have last: "last xs = ?e"
    using batch_log_one_failure [OF bl mem] by simp
  have "\<not> list_ex not_found (xs @ ys)"
  proof
    assume "list_ex not_found (xs @ ys)"
    then obtain pr where pr: "pr \<in> set xs \<union> set ys" "not_found pr"
      by (auto simp: list_ex_iff)
    from pr(2) have f: "failed pr" "is_db_table pr" by (simp_all add: not_found_failed)
    with sum(3) pr(1) have "pr \<in> set xs" by (auto simp: list_ex_iff)
    then have "pr = last xs" using f(1) by (rule batch_log_one_failure [OF bl])
    with last pr(2) assms(3) show False by (simp add: not_found_def)
  qed
  with assms(1) show ?thesis by (simp add: sum(1))
qed

section \<open>The example servers at work\<close>

lemma ParseInt_5: "ParseInt ''5'' = Some 5"
  by (simp add: ParseInt_def ParseUint_def digit_of_def)

lemma make_batches_one: "make_batches [tid] = [[tid]]"
  by (simp add: make_batches_def tableInfosBatchSize_def)

lemma healthy_batched:
  "updateMap healthy (Inr [''5'']) (Some [7]) s0 =
     (effect [(DBTablePath [7], GotDBTableInfos [(0, \<lparr>dt_DBInfo_Name_O = ''shop'', dt_TableInfo = orders_table\<rparr>)])] s0)
       \<lparr>SchemaVersion := 5\<rparr>"
  by (simp add: updateMap_def ParseInt_5 make_batches_one s0_def healthy_def logged_db_table_applied)

lemma healthy_scan:
  "updateMap healthy (Inr [''5'']) None s0 =
     (effect [(SchemaPath, GotDBInfos [dropped_db, shop_db]),
              (SchemaDBPath ''shop'', GotTableInfos [orders_table])] s0)
       \<lparr>SchemaVersion := 5\<rparr>"
  by (simp add: updateMap_def ParseInt_5 s0_def healthy_def full_scan_def logged_schema
        logged_schema_db_applied dropped_db_def shop_db_def)

lemma no_endpoint_fallback:
  "updateMap no_endpoint (Inr [''5'']) (Some [7]) s0 =
     (effect [(DBTablePath [7], Err ''404 page not found''),
              (SchemaPath, GotDBInfos [dropped_db, shop_db]),
              (SchemaDBPath ''shop'', GotTableInfos [orders_table])] s0)
       \<lparr>SchemaVersion := 5\<rparr>"
  by (simp add: updateMap_def ParseInt_5 s0_def healthy_def no_endpoint_def make_batches_one
        full_scan_def logged_schema logged_db_table_failed
        logged_schema_db_applied dropped_db_def shop_db_def)

lemma healthy_scan_any:
  "5 \<noteq> SchemaVersion s \<Longrightarrow> getTableIDs = None \<or> dbTableInfosEndpointNotFound s \<Longrightarrow>
   updateMap healthy (Inr [''5'']) getTableIDs s =
     (effect [(SchemaPath, GotDBInfos [dropped_db, shop_db]),
              (SchemaDBPath ''shop'', GotTableInfos [orders_table])] s)
       \<lparr>SchemaVersion := 5\<rparr>"
  by (auto simp: updateMap_def ParseInt_5 healthy_def full_scan_def logged_schema
        logged_schema_db_applied dropped_db_def shop_db_def)

lemma one_db_down_scan:
  "updateMap one_db_down (Inr [''5'']) None s0 =
     effect [(SchemaPath, GotDBInfos [logs_db, shop_db]),
             (SchemaDBPath ''logs'', Err ''500 Internal Server Error''),
             (SchemaDBPath ''shop'', GotTableInfos [orders_table])] s0"
  by (simp add: updateMap_def ParseInt_5 healthy_def one_db_down_def full_scan_def logged_schema
        logged_schema_db_applied logged_failed logs_db_def shop_db_def s0_def)

lemma part_simps [simp]:
  "is_db_table (DBTablePath b, r)"
  "\<not> is_db_table (SchemaPath, r)"
  "\<not> is_db_table (SchemaDBPath dbname, r)"
  by (simp_all add: is_db_table_def)

lemma s0_fields [simp]:
  "SchemaVersion s0 = - 1" "\<not> dbTableInfosEndpointNotFound s0" "sent s0 = []" "stored s0 = []"
  "TableMap s0 = Map.empty"
  by (simp_all add: s0_def)

lemma s0_not_found_fields [simp]:
  "SchemaVersion s0_not_found = - 1" "dbTableInfosEndpointNotFound s0_not_found"
  by (simp_all add: s0_not_found_def s0_def)

lemma length_ids517: "length ids517 = 517"
  by (simp add: ids517_def)

lemma distinct_ids517: "distinct ids517"
proof -
  have "map unat ids517 = map (\<lambda>x. x) [0..<517]"
    unfolding ids517_def map_map
    by (rule map_cong [OF refl]) (simp add: unat_of_nat)
  then have "distinct (map unat ids517)" by simp
  then show ?thesis by (simp add: distinct_map)
qed

section \<open>When the version marker is committed\<close>

text \<open>
  Claim C1. In a cycle that fetched a version \<open>n\<close> other than the stored one, the stored
  version afterwards is \<open>n\<close> exactly when one strategy succeeded in full: either
  \<^verbatim>\<open>/db-table\<close> requests were made and none failed, or the full scan was made and none of
  its requests failed (the request for the database list and the request for the table
  list of every database that is not in state \<open>StateNone\<close>); otherwise the stored version
  keeps its prior value. When every \<^verbatim>\<open>/db-table\<close> request succeeded, no scan is made. When
  a \<^verbatim>\<open>/db-table\<close> request failed, the full scan is made in the same cycle, and the version
  is committed exactly when no request of the scan failed.
\<close>

theorem commit_gating:
  assumes "etcd = Inr [v]" and "ParseInt v = Some n" and "n \<noteq> SchemaVersion s"
    and "s' = updateMap c etcd getTableIDs s"
  shows "SchemaVersion s' =
           (if (db_table_part (new_sent s s') \<noteq> [] \<and> \<not> list_ex failed (db_table_part (new_sent s s')))
               \<or> (scan_part (new_sent s s') \<noteq> [] \<and> \<not> list_ex failed (scan_part (new_sent s s')))
            then n else SchemaVersion s)
     \<and> (db_table_part (new_sent s s') \<noteq> [] \<and> \<not> list_ex failed (db_table_part (new_sent s s')) \<longrightarrow>
          scan_part (new_sent s s') = [])
     \<and> (list_ex failed (db_table_part (new_sent s s')) \<longrightarrow>
          (\<exists>r zs. scan_part (new_sent s s') = (SchemaPath, r) # zs)
          \<and> (SchemaVersion s' = n \<longleftrightarrow> \<not> list_ex failed (scan_part (new_sent s s'))))
     \<and> (\<forall>dbInfos zs. scan_part (new_sent s s') = (SchemaPath, GotDBInfos dbInfos) # zs \<longrightarrow>
          map fst zs = map (\<lambda>db. SchemaDBPath (db_Name_O db))
                         (filter (\<lambda>db. db_State db \<noteq> StateNone) dbInfos))
     \<and> new_sent s s' = db_table_part (new_sent s s') @ scan_part (new_sent s s')
     \<and> sent s' = sent s @ new_sent s s'"
proof -
  have al: "(\<lambda>db. db_State db \<noteq> StateNone) = alive"
    by (simp add: fun_eq_iff alive_def)
  obtain xs ys where sum:
    "updateMap c etcd getTableIDs s =
       (effect (xs @ ys) s)\<lparr>SchemaVersion :=
          if (xs \<noteq> [] \<and> \<not> list_ex failed xs) \<or> (ys \<noteq> [] \<and> \<not> list_ex failed ys)
          then n else SchemaVersion s\<rparr>"
    "list_all is_db_table xs" "\<not> list_ex is_db_table ys"
    "ys = [] \<or> scan_log ys"
    "ys \<noteq> [] \<longleftrightarrow> getTableIDs = None \<or> dbTableInfosEndpointNotFound s \<or> list_ex failed xs"
    "if getTableIDs \<noteq> None \<and> \<not> dbTableInfosEndpointNotFound s
     then batch_log (make_batches (the getTableIDs)) xs else xs = []"
    using updateMap_summary [OF assms(1-3), of c getTableIDs] by metis
  have only: "xs \<noteq> [] \<and> \<not> list_ex failed xs \<longrightarrow> ys = []"
    using sum(5,6) by (auto split: if_splits)
  have log: "new_sent s s' = xs @ ys"
    by (simp add: assms(4) sum(1))
  have parts: "db_table_part (new_sent s s') = xs" "scan_part (new_sent s s') = ys"
    by (simp_all add: log parts_append sum(2,3))
  have ver: "SchemaVersion s' = (if (xs \<noteq> [] \<and> \<not> list_ex failed xs) \<or> (ys \<noteq> [] \<and> \<not> list_ex failed ys)
          then n else SchemaVersion s)"
    by (simp add: assms(4) sum(1))
  have fb: "list_ex failed xs \<longrightarrow> (\<exists>r zs. ys = (SchemaPath, r) # zs) \<and> (SchemaVersion s' = n \<longleftrightarrow> \<not> list_ex failed ys)"
  proof
    assume f: "list_ex failed xs"
    with sum(4,5) have sl: "scan_log ys" by blast
    then have "\<exists>r zs. ys = (SchemaPath, r) # zs"
      by (cases ys) (auto simp: scan_log_def)
    moreover from sl have "ys \<noteq> []" by (rule scan_log_nonempty)
    with f ver assms(3) have "SchemaVersion s' = n \<longleftrightarrow> \<not> list_ex failed ys"
      by auto
    ultimately show "(\<exists>r zs. ys = (SchemaPath, r) # zs) \<and> (SchemaVersion s' = n \<longleftrightarrow> \<not> list_ex failed ys)"
      by blast
  qed
  have dbs: "\<forall>dbInfos zs. ys = (SchemaPath, GotDBInfos dbInfos) # zs \<longrightarrow>
          map fst zs = map (\<lambda>db. SchemaDBPath (db_Name_O db)) (filter alive dbInfos)"
    using sum(4) by (auto simp: scan_log_def)
  have pre: "sent s' = sent s @ xs @ ys"
    by (simp add: assms(4) sum(1))
  from ver only fb dbs log pre show ?thesis unfolding parts al by simp
qed

text \<open>
  The server without the \<^verbatim>\<open>/db-table\<close> endpoint: the batched request fails, the full scan
  follows in the same cycle and succeeds, and the version is committed.
\<close>

theorem commit_gating_witness:
  "ParseInt ''5'' = Some 5 \<and> (5 :: int64) \<noteq> SchemaVersion s0
   \<and> list_ex failed (db_table_part (new_sent s0 (updateMap no_endpoint (Inr [''5'']) (Some [7]) s0)))
   \<and> scan_part (new_sent s0 (updateMap no_endpoint (Inr [''5'']) (Some [7]) s0))
       = [(SchemaPath, GotDBInfos [dropped_db, shop_db]),
          (SchemaDBPath ''shop'', GotTableInfos [orders_table])]
   \<and> SchemaVersion (updateMap no_endpoint (Inr [''5'']) (Some [7]) s0) = 5"
proof -
  have h1: "ParseInt ''5'' = Some 5" by (rule ParseInt_5)
  have h2: "(5 :: int64) \<noteq> SchemaVersion s0" by simp
  from commit_gating [OF refl h1 h2 refl, of no_endpoint "Some [7]"] h1 h2
  show ?thesis
    by (simp add: no_endpoint_fallback db_table_part_def scan_part_def)
qed

section \<open>The capability flag\<close>

text \<open>
  Claim C2. After a cycle the flag \<^verbatim>\<open>dbTableInfosEndpointNotFound\<close> is set exactly when it
  was set before or a \<^verbatim>\<open>/db-table\<close> request of the cycle failed with an error whose text
  contains \<^verbatim>\<open>404\<close>. Once the flag is set, it stays set through any number of further
  cycles, whatever the versions and identifier sets, and none of them sends a
  \<^verbatim>\<open>/db-table\<close> request. While the flag is unset, a cycle with a changed version and a
  non-empty identifier set starts with the \<^verbatim>\<open>/db-table\<close> request for the first batch, and
  a \<^verbatim>\<open>/db-table\<close> failure whose text does not contain \<^verbatim>\<open>404\<close> leaves the flag unset.
\<close>

theorem capability_flag_sticky:
  "dbTableInfosEndpointNotFound (updateMap c etcd getTableIDs s)
     = (dbTableInfosEndpointNotFound s \<or> list_ex not_found (new_sent s (updateMap c etcd getTableIDs s)))
   \<and> (dbTableInfosEndpointNotFound s \<longrightarrow>
        dbTableInfosEndpointNotFound (run c cycles s)
        \<and> sent (run c cycles s) = sent s @ new_sent s (run c cycles s)
        \<and> \<not> list_ex is_db_table (new_sent s (run c cycles s)))
   \<and> (\<not> dbTableInfosEndpointNotFound s \<and> etcd = Inr [v] \<and> ParseInt v = Some n
        \<and> n \<noteq> SchemaVersion s \<and> getTableIDs = Some tableIDs \<and> tableIDs \<noteq> [] \<longrightarrow>
        (\<exists>r zs. new_sent s (updateMap c etcd getTableIDs s)
                  = (DBTablePath (hd (make_batches tableIDs)), r) # zs))
   \<and> (\<not> dbTableInfosEndpointNotFound s
        \<and> (DBTablePath batch, Err msg) \<in> set (new_sent s (updateMap c etcd getTableIDs s))
        \<and> \<not> Contains msg ''404'' \<longrightarrow>
        \<not> dbTableInfosEndpointNotFound (updateMap c etcd getTableIDs s))
   \<and> sent (updateMap c etcd getTableIDs s)
       = sent s @ new_sent s (updateMap c etcd getTableIDs s)"
proof -
  have d: "\<not> dbTableInfosEndpointNotFound s
        \<and> (DBTablePath batch, Err msg) \<in> set (new_sent s (updateMap c etcd getTableIDs s))
        \<and> \<not> Contains msg ''404'' \<longrightarrow>
        \<not> dbTableInfosEndpointNotFound (updateMap c etcd getTableIDs s)"
    using updateMap_other_failure by blast
  obtain xs w where one: "updateMap c etcd getTableIDs s = (effect xs s)\<lparr>SchemaVersion := w\<rparr>"
    by (rule updateMap_effect)
  have a: "dbTableInfosEndpointNotFound (updateMap c etcd getTableIDs s)
     = (dbTableInfosEndpointNotFound s \<or> list_ex not_found (new_sent s (updateMap c etcd getTableIDs s)))"
    by (simp add: one)
  obtain ys w' where many: "run c cycles s = (effect ys s)\<lparr>SchemaVersion := w'\<rparr>"
    "dbTableInfosEndpointNotFound s \<longrightarrow> \<not> list_ex is_db_table ys"
    by (rule run_effect)
  have b: "dbTableInfosEndpointNotFound s \<longrightarrow>
        dbTableInfosEndpointNotFound (run c cycles s)
        \<and> sent (run c cycles s) = sent s @ new_sent s (run c cycles s)
        \<and> \<not> list_ex is_db_table (new_sent s (run c cycles s))"
    using many(2) by (simp add: many(1))
  have c: "\<exists>r zs. new_sent s (updateMap c etcd getTableIDs s)
                  = (DBTablePath (hd (make_batches tableIDs)), r) # zs"
    if h: "\<not> dbTableInfosEndpointNotFound s" "etcd = Inr [v]" "ParseInt v = Some n"
      "n \<noteq> SchemaVersion s" "getTableIDs = Some tableIDs" "tableIDs \<noteq> []"
  proof -
    obtain xs ys where sum:
      "updateMap c etcd getTableIDs s =
         (effect (xs @ ys) s)\<lparr>SchemaVersion :=
            if (xs \<noteq> [] \<and> \<not> list_ex failed xs) \<or> (ys \<noteq> [] \<and> \<not> list_ex failed ys)
            then n else SchemaVersion s\<rparr>"
      "if getTableIDs \<noteq> None \<and> \<not> dbTableInfosEndpointNotFound s
       then batch_log (make_batches (the getTableIDs)) xs else xs = []"
      using updateMap_summary [OF h(2-4), of c getTableIDs] by metis
    from sum(2) h have bl: "batch_log (make_batches tableIDs) xs" by simp
    from h(6) have ne: "make_batches tableIDs \<noteq> []" by (simp add: make_batches_Nil_iff)
    with bl obtain p r zs where xs: "xs = (p, r) # zs"
      by (cases xs) (auto simp: batch_log_def)
    with bl ne have "p = DBTablePath (hd (make_batches tableIDs))"
      by (cases "make_batches tableIDs") (auto simp: batch_log_def)
    with xs show ?thesis by (simp add: sum(1))
  qed
  have e: "sent (updateMap c etcd getTableIDs s)
       = sent s @ new_sent s (updateMap c etcd getTableIDs s)"
    by (simp add: one)
  from a b c d e show ?thesis by blast
qed

text \<open>
  After the server without the endpoint has set the flag, two more cycles with new
  versions and non-empty identifier sets send no \<^verbatim>\<open>/db-table\<close> request; the server that
  resets the connection leaves the flag unset.
\<close>

theorem capability_flag_sticky_witness:
  "dbTableInfosEndpointNotFound (updateMap no_endpoint (Inr [''5'']) (Some [7]) s0)
   \<and> \<not> list_ex is_db_table
         (new_sent (updateMap no_endpoint (Inr [''5'']) (Some [7]) s0)
            (run healthy [(Inr [''6''], Some [7, 8]), (Inr [''7''], Some [7])]
               (updateMap no_endpoint (Inr [''5'']) (Some [7]) s0)))
   \<and> \<not> dbTableInfosEndpointNotFound s0 \<and> ParseInt ''5'' = Some 5 \<and> (5 :: int64) \<noteq> SchemaVersion s0
   \<and> (DBTablePath [7], Err ''connection reset by peer'')
        \<in> set (new_sent s0 (updateMap flaky (Inr [''5'']) (Some [7]) s0))
   \<and> \<not> Contains ''connection reset by peer'' ''404''
   \<and> \<not> dbTableInfosEndpointNotFound (updateMap flaky (Inr [''5'']) (Some [7]) s0)
   \<and> map fst (db_table_part (new_sent s0 (updateMap flaky (Inr [''5'']) (Some [7]) s0)))
       = [DBTablePath [7]]"
proof -
  have h1: "ParseInt ''5'' = Some 5" by (rule ParseInt_5)
  have h2: "(5 :: int64) \<noteq> SchemaVersion s0" by simp
  have flaky: "updateMap flaky (Inr [''5'']) (Some [7]) s0 =
     (effect [(DBTablePath [7], Err ''connection reset by peer''),
              (SchemaPath, GotDBInfos [dropped_db, shop_db]),
              (SchemaDBPath ''shop'', GotTableInfos [orders_table])] s0)
       \<lparr>SchemaVersion := 5\<rparr>"
    by (simp add: updateMap_def ParseInt_5 healthy_def flaky_def make_batches_one
        full_scan_def logged_schema logged_db_table_failed
        logged_schema_db_applied dropped_db_def shop_db_def)
  have set: "dbTableInfosEndpointNotFound (updateMap no_endpoint (Inr [''5'']) (Some [7]) s0)"
    using capability_flag_sticky [of no_endpoint "Inr [''5'']" "Some [7]" s0]
    by (simp add: no_endpoint_fallback not_found_def)
  from capability_flag_sticky [of healthy "Inr [''5'']" "Some [7]"
      "updateMap no_endpoint (Inr [''5'']) (Some [7]) s0"
      "[(Inr [''6''], Some [7, 8]), (Inr [''7''], Some [7])]"] set
  have run: "\<not> list_ex is_db_table
         (new_sent (updateMap no_endpoint (Inr [''5'']) (Some [7]) s0)
            (run healthy [(Inr [''6''], Some [7, 8]), (Inr [''7''], Some [7])]
               (updateMap no_endpoint (Inr [''5'']) (Some [7]) s0)))"
    by blast
  have mem: "(DBTablePath [7], Err ''connection reset by peer'')
        \<in> set (new_sent s0 (updateMap flaky (Inr [''5'']) (Some [7]) s0))"
    by (simp add: flaky)
  have other: "\<not> Contains ''connection reset by peer'' ''404''" by simp
  note last = capability_flag_sticky [where c = flaky and etcd = "Inr [''5'']"
      and getTableIDs = "Some [7]" and s = s0 and batch = "[7]"
      and msg = "''connection reset by peer''",
      THEN conjunct2, THEN conjunct2, THEN conjunct2, THEN conjunct1, rule_format]
  have unset: "\<not> dbTableInfosEndpointNotFound (updateMap flaky (Inr [''5'']) (Some [7]) s0)"
    by (rule last) (simp_all add: mem)
  from set run unset h1 h2 mem other show ?thesis
    by (simp add: flaky db_table_part_def)
qed

section \<open>Cycles that change nothing\<close>

text \<open>
  Claim C3. When the version check fails (etcd returns an error, the response does not
  hold exactly one key-value, or the value does not parse as a 64-bit decimal integer)
  or the fetched version equals the stored one, \<^verbatim>\<open>updateMap\<close> returns the strategy it was
  given: no request is sent, nothing is stored in the lookup, and the stored version and
  the flag are unchanged; a second call under the same answer of etcd, with any server
  and any identifier set, changes nothing either.
\<close>

theorem skip_no_mutation:
  assumes "(\<exists>err. etcd = Inl err) \<or> (\<exists>kvs. etcd = Inr kvs \<and> length kvs \<noteq> 1)
     \<or> (\<exists>v. etcd = Inr [v] \<and> ParseInt v = None)
     \<or> (\<exists>v. etcd = Inr [v] \<and> ParseInt v = Some (SchemaVersion s))"
  shows "updateMap c etcd getTableIDs s = s
     \<and> new_sent s (updateMap c etcd getTableIDs s) = []
     \<and> new_stored s (updateMap c etcd getTableIDs s) = []
     \<and> updateMap c' etcd getTableIDs' (updateMap c etcd getTableIDs s) = s"
proof -
  from assms have "updateMap c etcd ids s = s" for c ids
    by (auto simp: updateMap_def)
  then show ?thesis by (simp add: new_sent_def new_stored_def)
qed

text \<open>
  A second refresh after one that committed version 5, with etcd still answering 5,
  changes nothing and stores nothing, whatever the server and the identifier set.
\<close>

theorem skip_no_mutation_witness:
  "ParseInt ''5'' = Some (SchemaVersion (updateMap healthy (Inr [''5'']) (Some [7]) s0))
   \<and> updateMap flaky (Inr [''5'']) (Some [7, 8]) (updateMap healthy (Inr [''5'']) (Some [7]) s0)
       = updateMap healthy (Inr [''5'']) (Some [7]) s0
   \<and> new_stored (updateMap healthy (Inr [''5'']) (Some [7]) s0)
        (updateMap flaky (Inr [''5'']) (Some [7, 8]) (updateMap healthy (Inr [''5'']) (Some [7]) s0)) = []"
proof -
  have h: "ParseInt ''5'' = Some (SchemaVersion (updateMap healthy (Inr [''5'']) (Some [7]) s0))"
    by (simp add: healthy_batched ParseInt_5)
  then have "(\<exists>err. Inr [''5''] = (Inl err :: string + string list))
     \<or> (\<exists>kvs. Inr [''5''] = (Inr kvs :: string + string list) \<and> length kvs \<noteq> 1)
     \<or> (\<exists>v. Inr [''5''] = (Inr [v] :: string + string list) \<and> ParseInt v = None)
     \<or> (\<exists>v. Inr [''5''] = (Inr [v] :: string + string list)
           \<and> ParseInt v = Some (SchemaVersion (updateMap healthy (Inr [''5'']) (Some [7]) s0)))"
    by simp
  from skip_no_mutation [OF this, of flaky "Some [7, 8]"] h show ?thesis by simp
qed

section \<open>An empty identifier set\<close>

text \<open>
  Claim C4, amended. In a cycle with a changed version whose identifier provider
  returns an empty set, \<^verbatim>\<open>updateMap\<close> returns at once while the flag is unset: no request,
  no store, the version not committed. When the flag is set, and likewise when there is
  no identifier provider, the cycle is the full scan: it first requests the database
  list, then the table list of every database not in state \<open>StateNone\<close>, stores the labels
  of every table list it fetched, and commits the fetched version exactly when no
  request of the scan failed.
\<close>

theorem empty_identifier_set:
  assumes "etcd = Inr [v]" and "ParseInt v = Some n" and "n \<noteq> SchemaVersion s"
  shows "(\<not> dbTableInfosEndpointNotFound s \<longrightarrow> updateMap c etcd (Some []) s = s)
     \<and> (dbTableInfosEndpointNotFound s \<longrightarrow> updateMap c etcd (Some []) s = full_scan c n s)
     \<and> updateMap c etcd None s = full_scan c n s
     \<and> (\<exists>r zs. new_sent s (full_scan c n s) = (SchemaPath, r) # zs)
     \<and> (\<forall>dbInfos zs. new_sent s (full_scan c n s) = (SchemaPath, GotDBInfos dbInfos) # zs \<longrightarrow>
           map fst zs = map (\<lambda>db. SchemaDBPath (db_Name_O db))
                          (filter (\<lambda>db. db_State db \<noteq> StateNone) dbInfos))
     \<and> SchemaVersion (full_scan c n s)
         = (if list_ex failed (new_sent s (full_scan c n s)) then SchemaVersion s else n)
     \<and> new_stored s (full_scan c n s) = concat (map labels_of (new_sent s (full_scan c n s)))
     \<and> TableMap (full_scan c n s) = TableMap s ++ map_of (rev (new_stored s (full_scan c n s)))
     \<and> sent (full_scan c n s) = sent s @ new_sent s (full_scan c n s)"
proof -
  have al: "(\<lambda>db. db_State db \<noteq> StateNone) = alive"
    by (simp add: fun_eq_iff alive_def)
  obtain ys where ys:
    "full_scan c n s = (effect ys s)\<lparr>SchemaVersion := if list_ex failed ys then SchemaVersion s else n\<rparr>"
    "scan_log ys" by (rule full_scan_log)
  have a: "updateMap c etcd (Some []) s = s" if "\<not> dbTableInfosEndpointNotFound s"
    using that assms by (simp add: updateMap_def)
  have b: "updateMap c etcd (Some []) s = full_scan c n s" if "dbTableInfosEndpointNotFound s"
    using that assms by (simp add: updateMap_def)
  have c: "updateMap c etcd None s = full_scan c n s"
    using assms by (simp add: updateMap_def)
  have log: "new_sent s (full_scan c n s) = ys" by (simp add: ys(1))
  have d: "\<exists>r zs. ys = (SchemaPath, r) # zs"
    using ys(2) by (cases ys) (auto simp: scan_log_def)
  have e: "\<forall>dbInfos zs. ys = (SchemaPath, GotDBInfos dbInfos) # zs \<longrightarrow>
           map fst zs = map (\<lambda>db. SchemaDBPath (db_Name_O db)) (filter alive dbInfos)"
    using ys(2) by (auto dest: scan_log_requests)
  have f: "SchemaVersion (full_scan c n s) = (if list_ex failed ys then SchemaVersion s else n)"
    by (simp add: ys(1))
  have g: "new_stored s (full_scan c n s) = concat (map labels_of ys)"
    by (simp add: ys(1))
  have h: "TableMap (full_scan c n s) = TableMap s ++ map_of (rev (new_stored s (full_scan c n s)))"
    by (simp add: ys(1))
  have i: "sent (full_scan c n s) = sent s @ ys"
    by (simp add: ys(1))
  from a b c d e f g h i show ?thesis unfolding al log by blast
qed

text \<open>
  A first refresh with an empty identifier set changes nothing while the flag is unset,
  and is a full scan that commits version 5 when the flag is set.
\<close>

theorem empty_identifier_set_witness:
  "ParseInt ''5'' = Some 5 \<and> (5 :: int64) \<noteq> SchemaVersion s0
   \<and> \<not> dbTableInfosEndpointNotFound s0
   \<and> updateMap healthy (Inr [''5'']) (Some []) s0 = s0
   \<and> (5 :: int64) \<noteq> SchemaVersion s0_not_found \<and> dbTableInfosEndpointNotFound s0_not_found
   \<and> updateMap healthy (Inr [''5'']) (Some []) s0_not_found = full_scan healthy 5 s0_not_found
   \<and> new_sent s0_not_found (full_scan healthy 5 s0_not_found)
       = [(SchemaPath, GotDBInfos [dropped_db, shop_db]),
          (SchemaDBPath ''shop'', GotTableInfos [orders_table])]
   \<and> SchemaVersion (full_scan healthy 5 s0_not_found) = 5"
proof -
  have h1: "ParseInt ''5'' = Some 5" by (rule ParseInt_5)
  have h2: "(5 :: int64) \<noteq> SchemaVersion s0" by simp
  have h3: "(5 :: int64) \<noteq> SchemaVersion s0_not_found" by simp
  from empty_identifier_set [OF refl h1 h2, of healthy]
  have a: "updateMap healthy (Inr [''5'']) (Some []) s0 = s0" by simp
  from empty_identifier_set [OF refl h1 h3, of healthy]
  have b: "updateMap healthy (Inr [''5'']) (Some []) s0_not_found = full_scan healthy 5 s0_not_found"
    by simp
  have "full_scan healthy 5 s0_not_found =
     (effect [(SchemaPath, GotDBInfos [dropped_db, shop_db]),
              (SchemaDBPath ''shop'', GotTableInfos [orders_table])] s0_not_found)
       \<lparr>SchemaVersion := 5\<rparr>"
    unfolding b [symmetric] by (rule healthy_scan_any) simp_all
  with a b h1 h2 h3 show ?thesis by simp
qed

text \<open>
  The claim as first worded asks for a full scan on every empty identifier set. On a
  first refresh with the flag unset, an empty set and a server whose full scan would
  succeed, nothing is sent and the version stays unset.
\<close>

theorem empty_identifier_set_counterexample:
  "sent (updateMap healthy (Inr [''5'']) (Some []) s0) = []
   \<and> SchemaVersion (updateMap healthy (Inr [''5'']) (Some []) s0) = - 1
   \<and> SchemaVersion (updateMap healthy (Inr [''5'']) None s0) = 5"
  by (simp add: healthy_scan) (simp add: updateMap_def ParseInt_5 s0_def)

section \<open>The batches of the batched fetch\<close>

text \<open>
  Claim C5, amended. In a cycle with a changed version, the flag unset and a non-empty
  identifier set of \<open>n\<close> identifiers, the batches are the identifiers in the order visited,
  cut into batches of exactly 512 with one last batch for the remainder when 512 does
  not divide \<open>n\<close>: each identifier is in exactly one batch and there are
  \<open>(n + 511) div 512\<close> batches; 517 identifiers give two batches of sizes 512 and 5. The
  cycle sends one \<^verbatim>\<open>/db-table\<close> request for each batch in order and stops after the first
  that fails: at least one request, only the last one can have failed, and when none
  failed there is exactly one request for each batch.
\<close>

theorem batched_requests:
  assumes "etcd = Inr [v]" and "ParseInt v = Some n" and "n \<noteq> SchemaVersion s"
    and "\<not> dbTableInfosEndpointNotFound s" and "tableIDs \<noteq> []"
    and "s' = updateMap c etcd (Some tableIDs) s"
  shows "concat (make_batches tableIDs) = tableIDs
     \<and> (distinct tableIDs \<longrightarrow> distinct (concat (make_batches tableIDs)))
     \<and> map length (make_batches tableIDs)
         = replicate (length tableIDs div 512) 512
           @ (if length tableIDs mod 512 = 0 then [] else [length tableIDs mod 512])
     \<and> length (make_batches tableIDs) = (length tableIDs + 511) div 512
     \<and> (length tableIDs = 517 \<longrightarrow> map length (make_batches tableIDs) = [512, 5])
     \<and> db_table_part (new_sent s s') \<noteq> []
     \<and> length (db_table_part (new_sent s s')) \<le> (length tableIDs + 511) div 512
     \<and> map fst (db_table_part (new_sent s s'))
         = map DBTablePath (take (length (db_table_part (new_sent s s'))) (make_batches tableIDs))
     \<and> \<not> list_ex failed (butlast (db_table_part (new_sent s s')))
     \<and> (\<not> list_ex failed (db_table_part (new_sent s s')) \<longrightarrow>
          map fst (db_table_part (new_sent s s')) = map DBTablePath (make_batches tableIDs)
          \<and> length (db_table_part (new_sent s s')) = (length tableIDs + 511) div 512)
     \<and> sent s' = sent s @ new_sent s s'"
proof -
  have a: "concat (make_batches tableIDs) = tableIDs"
    by (simp add: make_batches_spec concat_spec_batches tableInfosBatchSize_def)
  have b: "map length (make_batches tableIDs)
         = replicate (length tableIDs div 512) 512
           @ (if length tableIDs mod 512 = 0 then [] else [length tableIDs mod 512])"
    by (simp add: make_batches_spec lengths_spec_batches tableInfosBatchSize_def)
  have c: "length (make_batches tableIDs) = (length tableIDs + 511) div 512"
    by (rule length_make_batches)
  have d: "map length (make_batches tableIDs) = [512, 5]" if "length tableIDs = 517"
    unfolding b that by simp
  obtain xs ys where sum:
    "updateMap c etcd (Some tableIDs) s =
       (effect (xs @ ys) s)\<lparr>SchemaVersion :=
          if (xs \<noteq> [] \<and> \<not> list_ex failed xs) \<or> (ys \<noteq> [] \<and> \<not> list_ex failed ys)
          then n else SchemaVersion s\<rparr>"
    "list_all is_db_table xs" "\<not> list_ex is_db_table ys"
    "if Some tableIDs \<noteq> None \<and> \<not> dbTableInfosEndpointNotFound s
     then batch_log (make_batches (the (Some tableIDs))) xs else xs = []"
    using updateMap_summary [OF assms(1-3), of c "Some tableIDs"] by metis
  from sum(4) assms(4) have bl: "batch_log (make_batches tableIDs) xs" by simp
  have part: "db_table_part (new_sent s s') = xs"
    by (simp add: assms(6) sum(1) parts_append sum(2,3))
  from bl assms(5) have e: "xs \<noteq> []"
    by (simp add: batch_log_def make_batches_Nil_iff)
  from bl have f: "map fst xs = map DBTablePath (take (length xs) (make_batches tableIDs))"
    and g: "\<not> list_ex failed (butlast xs)"
    and all: "list_ex failed xs \<or> length xs = length (make_batches tableIDs)"
    and "length xs \<le> length (make_batches tableIDs)"
    by (simp_all add: batch_log_def)
  then have le: "length xs \<le> (length tableIDs + 511) div 512"
    by (simp only: c)
  have h: "map fst xs = map DBTablePath (make_batches tableIDs)
          \<and> length xs = (length tableIDs + 511) div 512" if "\<not> list_ex failed xs"
    using that all f c by simp
  have pre: "sent s' = sent s @ new_sent s s'"
    by (simp add: assms(6) sum(1))
  from a b c d e le f g h pre show ?thesis unfolding part by simp
qed

text \<open>
  517 identifiers and the server that answers every request: two batches of sizes 512
  and 5, and two \<^verbatim>\<open>/db-table\<close> requests.
\<close>

theorem batched_requests_witness:
  "ParseInt ''5'' = Some 5 \<and> (5 :: int64) \<noteq> SchemaVersion s0
   \<and> \<not> dbTableInfosEndpointNotFound s0 \<and> ids517 \<noteq> [] \<and> distinct ids517 \<and> length ids517 = 517
   \<and> map length (make_batches ids517) = [512, 5]
   \<and> distinct (concat (make_batches ids517))
   \<and> \<not> list_ex failed (db_table_part (new_sent s0 (updateMap healthy (Inr [''5'']) (Some ids517) s0)))
   \<and> length (db_table_part (new_sent s0 (updateMap healthy (Inr [''5'']) (Some ids517) s0))) = 2"
proof -
  have h1: "ParseInt ''5'' = Some 5" by (rule ParseInt_5)
  have h2: "(5 :: int64) \<noteq> SchemaVersion s0" by simp
  have h4: "\<not> dbTableInfosEndpointNotFound s0" by simp
  have h5: "ids517 \<noteq> []" using length_ids517 by auto
  note inst = batched_requests [OF refl h1 h2 h4 h5 refl, of healthy]
  from inst length_ids517 have lens: "map length (make_batches ids517) = [512, 5]" by blast
  from inst distinct_ids517 have dist: "distinct (concat (make_batches ids517))" by blast
  from lens obtain b1 b2 where mb: "make_batches ids517 = [b1, b2]"
    by (auto simp: map_eq_Cons_conv)
  have run: "updateMap healthy (Inr [''5'']) (Some ids517) s0 =
     (effect [(DBTablePath b1, GotDBTableInfos [(0, \<lparr>dt_DBInfo_Name_O = ''shop'', dt_TableInfo = orders_table\<rparr>)]),
              (DBTablePath b2, GotDBTableInfos [(0, \<lparr>dt_DBInfo_Name_O = ''shop'', dt_TableInfo = orders_table\<rparr>)])] s0)
       \<lparr>SchemaVersion := 5\<rparr>"
    using h5 by (simp add: updateMap_def ParseInt_5 mb healthy_def logged_db_table_applied)
  have ok: "\<not> list_ex failed (db_table_part (new_sent s0 (updateMap healthy (Inr [''5'']) (Some ids517) s0)))"
    by (simp add: run db_table_part_def)
  with inst have "length (db_table_part (new_sent s0 (updateMap healthy (Inr [''5'']) (Some ids517) s0)))
      = (length ids517 + 511) div 512" by blast
  with h1 h2 h4 h5 lens dist ok distinct_ids517 length_ids517 show ?thesis by simp
qed

text \<open>
  The claim as first worded asks for exactly two requests on 517 identifiers. When the
  first request fails the loop ends, and only one \<^verbatim>\<open>/db-table\<close> request is sent.
\<close>

theorem batched_requests_counterexample:
  "length ids517 = 517
   \<and> length (db_table_part (new_sent s0 (updateMap flaky (Inr [''5'']) (Some ids517) s0))) = 1
   \<and> (517 + 511) div 512 = (2 :: nat)"
proof -
  have "ids517 \<noteq> []" using length_ids517 by auto
  then obtain b bs where mb: "make_batches ids517 = b # bs"
    by (cases "make_batches ids517") (simp_all add: make_batches_Nil_iff)
  have "updateMap flaky (Inr [''5'']) (Some ids517) s0 =
     (effect [(DBTablePath b, Err ''connection reset by peer''),
              (SchemaPath, GotDBInfos [dropped_db, shop_db]),
              (SchemaDBPath ''shop'', GotTableInfos [orders_table])] s0)
       \<lparr>SchemaVersion := 5\<rparr>"
    using \<open>ids517 \<noteq> []\<close>
    by (simp add: updateMap_def ParseInt_5 s0_def healthy_def flaky_def mb
        full_scan_def logged_schema logged_db_table_failed
        logged_schema_db_applied dropped_db_def shop_db_def)
  then have "db_table_part (new_sent s0 (updateMap flaky (Inr [''5'']) (Some ids517) s0))
      = [(DBTablePath b, Err ''connection reset by peer'')]"
    by (simp add: db_table_part_def is_db_table_def)
  with length_ids517 show ?thesis by simp
qed

section \<open>Tables and their partitions\<close>

text \<open>
  Claim C6. Both builders store, for each table description in turn, the labels the
  specification gives it: the entry of the table, then one entry for each partition of
  its partition list. For a table with a partition list the entry of a partition is
  named by the table name, a slash and the partition name, has the database of the
  table, is keyed by the partition id and carries the same index-name mapping as the
  entry of the table, which maps each index id of the index list to the declared name.
  The lookup afterwards is the old one overwritten by these entries.
\<close>

theorem partition_labels:
  "new_stored s (updateTableMap dbname tableInfos s) = concat (map (spec_labels dbname) tableInfos)
   \<and> new_stored s (updateTableMapByDBTableInfos dbTableInfos s)
       = concat (map (\<lambda>(_, dbTable). spec_labels (dt_DBInfo_Name_O dbTable) (dt_TableInfo dbTable)) dbTableInfos)
   \<and> TableMap (updateTableMap dbname tableInfos s)
       = TableMap s ++ map_of (rev (concat (map (spec_labels dbname) tableInfos)))
   \<and> TableMap (updateTableMapByDBTableInfos dbTableInfos s)
       = TableMap s ++ map_of (rev (concat (map (\<lambda>(_, dbTable). spec_labels (dt_DBInfo_Name_O dbTable) (dt_TableInfo dbTable)) dbTableInfos)))
   \<and> (\<forall>partitionInfo. GetPartitionInfo table = Some partitionInfo \<longrightarrow>
        new_stored s (updateTableMap dbname [table] s) =
          (tbl_ID table, \<lparr>Name = tbl_Name_O table, DB = dbname, ID = tbl_ID table,
                           Indices = build_indices (tbl_Indices table)\<rparr>) #
          map (\<lambda>partitionDef. (def_ID partitionDef,
                  \<lparr>Name = tbl_Name_O table @ ''/'' @ def_Name_O partitionDef, DB = dbname,
                   ID = def_ID partitionDef, Indices = build_indices (tbl_Indices table)\<rparr>))
              (Definitions partitionInfo))
   \<and> build_indices (tbl_Indices table) = map_of (rev (map (\<lambda>index. (idx_ID index, idx_Name_O index)) (tbl_Indices table)))"
proof -
  have a: "new_stored s (updateTableMap dbname ts s) = concat (map (spec_labels dbname) ts)" for ts
    by (simp add: updateTableMap_labels)
  have b: "new_stored s (updateTableMapByDBTableInfos dbTableInfos s)
       = concat (map (\<lambda>(_, dbTable). spec_labels (dt_DBInfo_Name_O dbTable) (dt_TableInfo dbTable)) dbTableInfos)"
    by (simp add: updateTableMapByDBTableInfos_labels)
  have c: "TableMap (updateTableMap dbname tableInfos s)
       = TableMap s ++ map_of (rev (concat (map (spec_labels dbname) tableInfos)))"
    by (simp add: updateTableMap_labels)
  have d: "TableMap (updateTableMapByDBTableInfos dbTableInfos s)
       = TableMap s ++ map_of (rev (concat (map (\<lambda>(_, dbTable). spec_labels (dt_DBInfo_Name_O dbTable) (dt_TableInfo dbTable)) dbTableInfos)))"
    by (simp add: updateTableMapByDBTableInfos_labels)
  have e: "build_indices (tbl_Indices table) = map_of (rev (map (\<lambda>index. (idx_ID index, idx_Name_O index)) (tbl_Indices table)))"
    by (simp add: build_indices_spec spec_index_names_def)
  have f: "\<forall>partitionInfo. GetPartitionInfo table = Some partitionInfo \<longrightarrow>
        new_stored s (updateTableMap dbname [table] s) =
          (tbl_ID table, \<lparr>Name = tbl_Name_O table, DB = dbname, ID = tbl_ID table,
                           Indices = build_indices (tbl_Indices table)\<rparr>) #
          map (\<lambda>partitionDef. (def_ID partitionDef,
                  \<lparr>Name = tbl_Name_O table @ ''/'' @ def_Name_O partitionDef, DB = dbname,
                   ID = def_ID partitionDef, Indices = build_indices (tbl_Indices table)\<rparr>))
              (Definitions partitionInfo)"
    unfolding a by (simp add: spec_labels_def build_indices_spec)
  from a [of tableInfos] b c d e f show ?thesis by blast
qed

text \<open>The table \<open>orders\<close> with the partition \<open>p0\<close> gives an entry named \<open>orders/p0\<close>.\<close>

theorem partition_labels_witness:
  "GetPartitionInfo \<lparr>tbl_ID = 7, tbl_Name_O = ''orders'',
       tbl_Indices = [\<lparr>idx_ID = 1, idx_Name_O = ''idx_a''\<rparr>],
       GetPartitionInfo = Some \<lparr>Definitions = [\<lparr>def_ID = 8, def_Name_O = ''p0''\<rparr>]\<rparr>\<rparr>
     = Some \<lparr>Definitions = [\<lparr>def_ID = 8, def_Name_O = ''p0''\<rparr>]\<rparr>
   \<and> new_stored s0 (updateTableMap ''shop''
       [\<lparr>tbl_ID = 7, tbl_Name_O = ''orders'',
         tbl_Indices = [\<lparr>idx_ID = 1, idx_Name_O = ''idx_a''\<rparr>],
         GetPartitionInfo = Some \<lparr>Definitions = [\<lparr>def_ID = 8, def_Name_O = ''p0''\<rparr>]\<rparr>\<rparr>] s0)
     = [(7, \<lparr>Name = ''orders'', DB = ''shop'', ID = 7, Indices = [1 \<mapsto> ''idx_a'']\<rparr>),
        (8, \<lparr>Name = ''orders/p0'', DB = ''shop'', ID = 8, Indices = [1 \<mapsto> ''idx_a'']\<rparr>)]"
  using partition_labels [of s0 "''shop''" "[]" "[]"
      "\<lparr>tbl_ID = 7, tbl_Name_O = ''orders'',
         tbl_Indices = [\<lparr>idx_ID = 1, idx_Name_O = ''idx_a''\<rparr>],
         GetPartitionInfo = Some \<lparr>Definitions = [\<lparr>def_ID = 8, def_Name_O = ''p0''\<rparr>]\<rparr>\<rparr>"]
  by simp

section \<open>Dropped databases\<close>

text \<open>
  Claim C7. A database in state \<open>StateNone\<close> is skipped by the loop of the full scan: the
  loop on a list with such a database gives the same strategy and the same success flag
  as the loop on the list without it, and the loop on any list is the loop on its
  databases that are not in state \<open>StateNone\<close>. The table-list requests of the loop, and
  of a whole cycle, are exactly those for the databases not in state \<open>StateNone\<close>, in
  order, and the entries a cycle stores are exactly the labels of what its requests
  fetched.
\<close>

theorem dropped_database_skipped:
  "(db_State db = StateNone \<longrightarrow>
       scan_dbs c (before @ db # after) updateSuccess s = scan_dbs c (before @ after) updateSuccess s)
   \<and> scan_dbs c dbInfos updateSuccess s
       = scan_dbs c (filter (\<lambda>db. db_State db \<noteq> StateNone) dbInfos) updateSuccess s
   \<and> map fst (new_sent s (snd (scan_dbs c dbInfos updateSuccess s)))
       = map (\<lambda>db. SchemaDBPath (db_Name_O db)) (filter (\<lambda>db. db_State db \<noteq> StateNone) dbInfos)
   \<and> (\<forall>dbs zs. scan_part (new_sent s (updateMap c etcd getTableIDs s)) = (SchemaPath, GotDBInfos dbs) # zs \<longrightarrow>
         map fst zs = map (\<lambda>db. SchemaDBPath (db_Name_O db)) (filter (\<lambda>db. db_State db \<noteq> StateNone) dbs))
   \<and> new_stored s (updateMap c etcd getTableIDs s)
       = concat (map labels_of (new_sent s (updateMap c etcd getTableIDs s)))
   \<and> sent (updateMap c etcd getTableIDs s)
       = sent s @ new_sent s (updateMap c etcd getTableIDs s)"
proof -
  have al: "(\<lambda>db. db_State db \<noteq> StateNone) = alive"
    by (simp add: fun_eq_iff alive_def)
  have a: "scan_dbs c (before @ db # after) updateSuccess s = scan_dbs c (before @ after) updateSuccess s"
    if "db_State db = StateNone"
    using that by (simp add: scan_dbs_append split: prod.split)
  have b: "scan_dbs c dbInfos updateSuccess s = scan_dbs c (filter alive dbInfos) updateSuccess s"
    by (simp add: scan_dbs_filter_alive)
  obtain xs where xs: "scan_dbs c dbInfos updateSuccess s = (updateSuccess \<and> \<not> list_ex failed xs, effect xs s)"
    "map fst xs = map (\<lambda>db. SchemaDBPath (db_Name_O db)) (filter alive dbInfos)"
    using scan_dbs_effect [of c dbInfos updateSuccess s] by blast
  have c: "map fst (new_sent s (snd (scan_dbs c dbInfos updateSuccess s)))
       = map (\<lambda>db. SchemaDBPath (db_Name_O db)) (filter alive dbInfos)"
    by (simp add: xs)
  have d: "\<forall>dbs zs. scan_part (new_sent s (updateMap c etcd getTableIDs s)) = (SchemaPath, GotDBInfos dbs) # zs \<longrightarrow>
         map fst zs = map (\<lambda>db. SchemaDBPath (db_Name_O db)) (filter alive dbs)"
    using updateMap_scan_part [of s c etcd getTableIDs] by (auto dest: scan_log_requests)
  obtain ys w where one: "updateMap c etcd getTableIDs s = (effect ys s)\<lparr>SchemaVersion := w\<rparr>"
    by (rule updateMap_effect)
  then have e: "new_stored s (updateMap c etcd getTableIDs s)
       = concat (map labels_of (new_sent s (updateMap c etcd getTableIDs s)))"
    by simp
  have f: "sent (updateMap c etcd getTableIDs s)
       = sent s @ new_sent s (updateMap c etcd getTableIDs s)"
    by (simp add: one)
  from a b c d e f show ?thesis unfolding al by blast
qed

text \<open>
  The database list of the example server holds a dropped database and a live one: only
  the live one is asked for its tables, and only its two labels are stored.
\<close>

theorem dropped_database_skipped_witness:
  "db_State dropped_db = StateNone
   \<and> scan_dbs healthy ([] @ dropped_db # [shop_db]) True s0 = scan_dbs healthy ([] @ [shop_db]) True s0
   \<and> scan_part (new_sent s0 (updateMap healthy (Inr [''5'']) None s0))
       = (SchemaPath, GotDBInfos [dropped_db, shop_db]) # [(SchemaDBPath ''shop'', GotTableInfos [orders_table])]
   \<and> map fst [(SchemaDBPath ''shop'', GotTableInfos [orders_table])]
       = map (\<lambda>db. SchemaDBPath (db_Name_O db)) (filter (\<lambda>db. db_State db \<noteq> StateNone) [dropped_db, shop_db])
   \<and> map fst (new_stored s0 (updateMap healthy (Inr [''5'']) None s0)) = [7, 8]"
proof -
  have h: "db_State dropped_db = StateNone" by (simp add: dropped_db_def)
  have log: "scan_part (new_sent s0 (updateMap healthy (Inr [''5'']) None s0))
       = (SchemaPath, GotDBInfos [dropped_db, shop_db]) # [(SchemaDBPath ''shop'', GotTableInfos [orders_table])]"
    by (simp add: healthy_scan scan_part_def)
  note inst = dropped_database_skipped [of dropped_db healthy "[]" "[shop_db]" True s0 "[]"
      "Inr [''5'']" None]
  from inst h have a: "scan_dbs healthy ([] @ dropped_db # [shop_db]) True s0
      = scan_dbs healthy ([] @ [shop_db]) True s0" by blast
  from inst log have b: "map fst [(SchemaDBPath ''shop'', GotTableInfos [orders_table])]
       = map (\<lambda>db. SchemaDBPath (db_Name_O db)) (filter (\<lambda>db. db_State db \<noteq> StateNone) [dropped_db, shop_db])"
    by blast
  have c: "map fst (new_stored s0 (updateMap healthy (Inr [''5'']) None s0)) = [7, 8]"
    by (simp add: healthy_scan labels_of_def spec_labels_def orders_table_def)
  from h a log b c show ?thesis by blast
qed

section \<open>A database whose table list cannot be fetched\<close>

text \<open>
  Claim C8. When, in the loop of the full scan, the request for the table list of a
  database fails, the loop continues with the databases after it from a strategy in
  which only the failed request is logged: the lookup and the stores are as they were
  before that database. The success flag of the loop is false from then on, every
  database not in state \<open>StateNone\<close> is still asked for its table list, and a cycle in
  which a request of the scan failed does not commit the version.
\<close>

theorem failed_database_skipped_alone:
  assumes "scan_dbs c before updateSuccess s = (ok1, s1)"
    and "db_State db \<noteq> StateNone"
    and "schema_db c (sent s1) (db_Name_O db) = Inl err"
  shows "scan_dbs c (before @ db # after) updateSuccess s
           = scan_dbs c after False (logged (SchemaDBPath (db_Name_O db)) (Err err) s1)
     \<and> TableMap (logged (SchemaDBPath (db_Name_O db)) (Err err) s1) = TableMap s1
     \<and> stored (logged (SchemaDBPath (db_Name_O db)) (Err err) s1) = stored s1
     \<and> fst (scan_dbs c (before @ db # after) updateSuccess s) = False
     \<and> map fst (new_sent s (snd (scan_dbs c (before @ db # after) updateSuccess s)))
         = map (\<lambda>db. SchemaDBPath (db_Name_O db))
             (filter (\<lambda>db. db_State db \<noteq> StateNone) (before @ db # after))
     \<and> (list_ex failed (scan_part (new_sent s (updateMap c etcd getTableIDs s))) \<longrightarrow>
          SchemaVersion (updateMap c etcd getTableIDs s) = SchemaVersion s)
     \<and> sent (updateMap c etcd getTableIDs s)
         = sent s @ new_sent s (updateMap c etcd getTableIDs s)"
proof -
  have al: "(\<lambda>db. db_State db \<noteq> StateNone) = alive"
    by (simp add: fun_eq_iff alive_def)
  have a: "scan_dbs c (before @ db # after) updateSuccess s
           = scan_dbs c after False (logged (SchemaDBPath (db_Name_O db)) (Err err) s1)"
    using assms by (simp add: scan_dbs_append)
  have b: "TableMap (logged (SchemaDBPath (db_Name_O db)) (Err err) s1) = TableMap s1"
    "stored (logged (SchemaDBPath (db_Name_O db)) (Err err) s1) = stored s1"
    by (simp_all add: logged_def)
  have c: "fst (scan_dbs c (before @ db # after) updateSuccess s) = False"
    unfolding a by (rule scan_dbs_False)
  obtain xs where xs: "scan_dbs c (before @ db # after) updateSuccess s
        = (updateSuccess \<and> \<not> list_ex failed xs, effect xs s)"
    "map fst xs = map (\<lambda>db. SchemaDBPath (db_Name_O db)) (filter alive (before @ db # after))"
    using scan_dbs_effect [of c "before @ db # after" updateSuccess s] by blast
  have d: "map fst (new_sent s (snd (scan_dbs c (before @ db # after) updateSuccess s)))
         = map (\<lambda>db. SchemaDBPath (db_Name_O db)) (filter alive (before @ db # after))"
    by (simp add: xs)
  have e: "list_ex failed (scan_part (new_sent s (updateMap c etcd getTableIDs s))) \<longrightarrow>
          SchemaVersion (updateMap c etcd getTableIDs s) = SchemaVersion s"
    using updateMap_failed_scan by blast
  obtain ys w where "updateMap c etcd getTableIDs s = (effect ys s)\<lparr>SchemaVersion := w\<rparr>"
    by (rule updateMap_effect)
  then have f: "sent (updateMap c etcd getTableIDs s)
         = sent s @ new_sent s (updateMap c etcd getTableIDs s)"
    by simp
  from a b c d e f show ?thesis unfolding al by blast
qed

text \<open>
  The server that refuses the table list of \<open>logs\<close>: the scan goes on to \<open>shop\<close> and stores
  its two labels, and the version stays unset.
\<close>

theorem failed_database_skipped_alone_witness:
  "scan_dbs one_db_down [] True s0 = (True, s0) \<and> db_State logs_db \<noteq> StateNone
   \<and> schema_db one_db_down (sent s0) (db_Name_O logs_db) = Inl ''500 Internal Server Error''
   \<and> fst (scan_dbs one_db_down ([] @ logs_db # [shop_db]) True s0) = False
   \<and> map fst (new_sent s0 (snd (scan_dbs one_db_down ([] @ logs_db # [shop_db]) True s0)))
       = [SchemaDBPath ''logs'', SchemaDBPath ''shop'']
   \<and> list_ex failed (scan_part (new_sent s0 (updateMap one_db_down (Inr [''5'']) None s0)))
   \<and> SchemaVersion (updateMap one_db_down (Inr [''5'']) None s0) = - 1
   \<and> map fst (new_stored s0 (updateMap one_db_down (Inr [''5'']) None s0)) = [7, 8]"
proof -
  have h1: "scan_dbs one_db_down [] True s0 = (True, s0)" by simp
  have h2: "db_State logs_db \<noteq> StateNone" by (simp add: logs_db_def)
  have h3: "schema_db one_db_down (sent s0) (db_Name_O logs_db) = Inl ''500 Internal Server Error''"
    by (simp add: one_db_down_def healthy_def logs_db_def)
  note inst = failed_database_skipped_alone [OF h1 h2 h3, of "[shop_db]" "Inr [''5'']" None]
  note flag = inst [THEN conjunct2, THEN conjunct2, THEN conjunct2, THEN conjunct1]
  note reqs = inst [THEN conjunct2, THEN conjunct2, THEN conjunct2, THEN conjunct2, THEN conjunct1]
  note keep = inst [THEN conjunct2, THEN conjunct2, THEN conjunct2, THEN conjunct2, THEN conjunct2,
      THEN conjunct1]
  have f: "list_ex failed (scan_part (new_sent s0 (updateMap one_db_down (Inr [''5'']) None s0)))"
    by (simp add: one_db_down_scan scan_part_def)
  from keep f have v: "SchemaVersion (updateMap one_db_down (Inr [''5'']) None s0) = - 1" by simp
  have "map (\<lambda>db. SchemaDBPath (db_Name_O db))
          (filter (\<lambda>db. db_State db \<noteq> StateNone) ([] @ logs_db # [shop_db]))
        = [SchemaDBPath ''logs'', SchemaDBPath ''shop'']"
    by (simp add: logs_db_def shop_db_def)
  with reqs have r: "map fst (new_sent s0 (snd (scan_dbs one_db_down ([] @ logs_db # [shop_db]) True s0)))
       = [SchemaDBPath ''logs'', SchemaDBPath ''shop'']"
    by (rule trans)
  have st: "map fst (new_stored s0 (updateMap one_db_down (Inr [''5'']) None s0)) = [7, 8]"
    by (simp add: one_db_down_scan labels_of_def spec_labels_def orders_table_def)
  show ?thesis
    by (intro conjI) (fact h1 h2 h3 flag r f v st)+
qed

section \<open>The lookup only grows\<close>

text \<open>
  Claim C9. A cycle changes the lookup only by its calls of \<^verbatim>\<open>Store\<close>: the lookup
  afterwards is the old one overwritten by the entries stored, in order. Every id
  stored is an id named by a description some request of the cycle fetched, and a key
  that is not stored keeps its value. So every key of the lookup before a cycle, before
  any number of cycles, or before a call of either builder, is a key afterwards.
\<close>

theorem lookup_only_grows:
  "dom (TableMap s) \<subseteq> dom (TableMap (updateMap c etcd getTableIDs s))
   \<and> TableMap (updateMap c etcd getTableIDs s)
       = TableMap s ++ map_of (rev (new_stored s (updateMap c etcd getTableIDs s)))
   \<and> stored (updateMap c etcd getTableIDs s) = stored s @ new_stored s (updateMap c etcd getTableIDs s)
   \<and> new_stored s (updateMap c etcd getTableIDs s)
       = concat (map labels_of (new_sent s (updateMap c etcd getTableIDs s)))
   \<and> fst ` set (new_stored s (updateMap c etcd getTableIDs s))
       \<subseteq> set (concat (map (\<lambda>pr. described_ids (snd pr)) (new_sent s (updateMap c etcd getTableIDs s))))
   \<and> (\<forall>k. k \<notin> fst ` set (new_stored s (updateMap c etcd getTableIDs s)) \<longrightarrow>
         TableMap (updateMap c etcd getTableIDs s) k = TableMap s k)
   \<and> dom (TableMap s) \<subseteq> dom (TableMap (run c cycles s))
   \<and> dom (TableMap s) \<subseteq> dom (TableMap (updateTableMap dbname tableInfos s))
   \<and> dom (TableMap s) \<subseteq> dom (TableMap (updateTableMapByDBTableInfos dbTableInfos s))
   \<and> fst ` set (new_stored s (updateTableMap dbname tableInfos s))
       \<subseteq> set (concat (map table_ids tableInfos))
   \<and> fst ` set (new_stored s (updateTableMapByDBTableInfos dbTableInfos s))
       \<subseteq> set (concat (map (\<lambda>(_, dbTable). table_ids (dt_TableInfo dbTable)) dbTableInfos))
   \<and> sent (updateMap c etcd getTableIDs s)
       = sent s @ new_sent s (updateMap c etcd getTableIDs s)"
proof -
  obtain xs w where one: "updateMap c etcd getTableIDs s = (effect xs s)\<lparr>SchemaVersion := w\<rparr>"
    by (rule updateMap_effect)
  obtain ys w' where many: "run c cycles s = (effect ys s)\<lparr>SchemaVersion := w'\<rparr>"
    by (rule run_effect)
  have a: "dom (TableMap s) \<subseteq> dom (TableMap (updateMap c etcd getTableIDs s))"
    unfolding one by (simp add: dom_map_add_grows del: dom_map_add)
  have b: "TableMap (updateMap c etcd getTableIDs s)
       = TableMap s ++ map_of (rev (new_stored s (updateMap c etcd getTableIDs s)))"
    by (simp add: one)
  have c: "stored (updateMap c etcd getTableIDs s) = stored s @ new_stored s (updateMap c etcd getTableIDs s)"
    by (simp add: one)
  have d: "new_stored s (updateMap c etcd getTableIDs s)
       = concat (map labels_of (new_sent s (updateMap c etcd getTableIDs s)))"
    by (simp add: one)
  have e: "fst ` set (new_stored s (updateMap c etcd getTableIDs s))
       \<subseteq> set (concat (map (\<lambda>pr. described_ids (snd pr)) (new_sent s (updateMap c etcd getTableIDs s))))"
    unfolding d by (rule stored_ids_described)
  have f: "\<forall>k. k \<notin> fst ` set (new_stored s (updateMap c etcd getTableIDs s)) \<longrightarrow>
         TableMap (updateMap c etcd getTableIDs s) k = TableMap s k"
  proof (intro allI impI)
    fix k
    assume "k \<notin> fst ` set (new_stored s (updateMap c etcd getTableIDs s))"
    then have "map_of (rev (new_stored s (updateMap c etcd getTableIDs s))) k = None"
      by (simp add: map_of_eq_None_iff)
    then show "TableMap (updateMap c etcd getTableIDs s) k = TableMap s k"
      by (subst b) (simp add: map_add_def)
  qed
  have g: "dom (TableMap s) \<subseteq> dom (TableMap (run c cycles s))"
    unfolding many by (simp add: dom_map_add_grows del: dom_map_add)
  have h: "dom (TableMap s) \<subseteq> dom (TableMap (updateTableMap dbname tableInfos s))"
    "dom (TableMap s) \<subseteq> dom (TableMap (updateTableMapByDBTableInfos dbTableInfos s))"
    by (simp_all add: updateTableMap_labels updateTableMapByDBTableInfos_labels dom_map_add_grows
          del: dom_map_add)
  have i: "fst ` set (new_stored s (updateTableMap dbname tableInfos s))
       \<subseteq> set (concat (map table_ids tableInfos))"
    using map_fst_labels_of [of "SchemaDBPath dbname" "GotTableInfos tableInfos"]
    by (simp add: updateTableMap_labels labels_of_def described_ids_def)
  have j: "fst ` set (new_stored s (updateTableMapByDBTableInfos dbTableInfos s))
       \<subseteq> set (concat (map (\<lambda>(_, dbTable). table_ids (dt_TableInfo dbTable)) dbTableInfos))"
    using map_fst_labels_of [of "DBTablePath []" "GotDBTableInfos dbTableInfos"]
    by (simp add: updateTableMapByDBTableInfos_labels labels_of_def described_ids_def)
  have k: "sent (updateMap c etcd getTableIDs s)
       = sent s @ new_sent s (updateMap c etcd getTableIDs s)"
    by (simp add: one)
  from a b c d e f g h i j k show ?thesis by blast
qed

text \<open>
  A lookup that holds the id 99 of a table no longer in the schema: the full scan stores
  the ids 7 and 8 and leaves the entry of 99 as it was.
\<close>

theorem lookup_only_grows_witness:
  "(99 :: int64) \<notin> fst ` set (new_stored s_old (updateMap healthy (Inr [''5'']) None s_old))
   \<and> TableMap (updateMap healthy (Inr [''5'']) None s_old) 99 = TableMap s_old 99
   \<and> map fst (new_stored s_old (updateMap healthy (Inr [''5'']) None s_old)) = [7, 8]"
proof -
  have run: "updateMap healthy (Inr [''5'']) None s_old =
     (effect [(SchemaPath, GotDBInfos [dropped_db, shop_db]),
              (SchemaDBPath ''shop'', GotTableInfos [orders_table])] s_old)
       \<lparr>SchemaVersion := 5\<rparr>"
    by (rule healthy_scan_any) (simp_all add: s_old_def)
  have st: "map fst (new_stored s_old (updateMap healthy (Inr [''5'']) None s_old)) = [7, 8]"
    by (simp add: run labels_of_def spec_labels_def orders_table_def)
  have "(99 :: int64) \<notin> set (map fst (new_stored s_old (updateMap healthy (Inr [''5'']) None s_old)))"
    unfolding st by simp
  then have h: "(99 :: int64) \<notin> fst ` set (new_stored s_old (updateMap healthy (Inr [''5'']) None s_old))"
    by simp
  note inst = lookup_only_grows [of s_old healthy "Inr [''5'']" None]
  note same = inst [THEN conjunct2, THEN conjunct2, THEN conjunct2, THEN conjunct2, THEN conjunct2,
      THEN conjunct1, rule_format]
  from h have keep: "TableMap (updateMap healthy (Inr [''5'']) None s_old) 99 = TableMap s_old 99"
    by (rule same)
  show ?thesis
    by (intro conjI) (fact h keep st)+
qed

section \<open>The two builders agree\<close>

text \<open>
  Claim C10. Applying \<^verbatim>\<open>updateTableMapByDBTableInfos\<close> to one combined description that
  pairs the database name \<open>d\<close> with the table description \<open>t\<close> leaves the same strategy
  as applying \<^verbatim>\<open>updateTableMap\<close> to \<open>d\<close> and the list \<open>[t]\<close>: the same calls of \<^verbatim>\<open>Store\<close>
  with the same ids and entries, hence the same lookup. On a map of many combined
  descriptions it is \<^verbatim>\<open>updateTableMap\<close> on each in turn.
\<close>

theorem apply_paths_equivalent:
  "updateTableMapByDBTableInfos [(k, \<lparr>dt_DBInfo_Name_O = d, dt_TableInfo = t\<rparr>)] s = updateTableMap d [t] s
   \<and> new_stored s (updateTableMapByDBTableInfos [(k, \<lparr>dt_DBInfo_Name_O = d, dt_TableInfo = t\<rparr>)] s)
       = new_stored s (updateTableMap d [t] s)
   \<and> updateTableMapByDBTableInfos dbTableInfos s
       = foldl (\<lambda>s' (_, dbTable). updateTableMap (dt_DBInfo_Name_O dbTable) [dt_TableInfo dbTable] s') s dbTableInfos"
proof -
  have one: "updateTableMapByDBTableInfos [(k, \<lparr>dt_DBInfo_Name_O = d, dt_TableInfo = t\<rparr>)] s = updateTableMap d [t] s"
    by (simp add: updateTableMapByDBTableInfos_def updateTableMap_def
          updateTableMapByDBTableInfos_entry_def updateTableMap_table_def Let_def split: option.split)
  have body: "(\<lambda>s' (_, dbTable). updateTableMap (dt_DBInfo_Name_O dbTable) [dt_TableInfo dbTable] s')
     = (\<lambda>s' (_, dbTable). updateTableMapByDBTableInfos_entry dbTable s')"
    by (simp add: fun_eq_iff updateTableMap_def updateTableMapByDBTableInfos_entry_def
          updateTableMap_table_def Let_def split: option.split)
  have many: "updateTableMapByDBTableInfos dbTableInfos s
       = foldl (\<lambda>s' (_, dbTable). updateTableMap (dt_DBInfo_Name_O dbTable) [dt_TableInfo dbTable] s') s dbTableInfos"
    unfolding body by (cases dbTableInfos) (simp_all add: updateTableMapByDBTableInfos_def)
  from one many show ?thesis by simp
qed

end
